theory Spec2Isabelle
  imports Main "HOL-Library.Sublist" "HOL-Library.Multiset" "HOL-Library.Word"
begin

section \<open>The control hierarchy as a file tree\<close>

text \<open>
  The code under verification is the \<open>fs\<close> package of libcontainer's cgroups support
  (\<open>access.go\<close>, \<open>cpuset.go\<close>) and the daemon's \<open>ContainerLimit\<close> job. All of it acts
  on the kernel's control hierarchy through \<open>os.Stat\<close>, \<open>os.MkdirAll\<close>,
  \<open>ioutil.ReadFile\<close> and \<open>ioutil.WriteFile\<close>. A path is the list of the components of
  a cleaned absolute path, so \<open>filepath.Dir\<close> is \<open>butlast\<close> and the root \<open>/\<close> is \<open>[]\<close>.
\<close>

type_synonym path = "string list"

datatype node = Dir | File string

datatype errno = ENOENT | ENOTDIR | EEXIST | EISDIR | EINVAL

datatype error =
    PathError errno path
  | ErrCanNotAccess
  | Errorf string
  | NotFoundError string
  | OtherError string

text \<open>
  The world: the nodes of the file tree, the control files the kernel puts into every
  directory created inside the hierarchy (name and initial content), and the writes the
  kernel refuses (path and value). The last two are never changed by the code.
\<close>

record world =
  nodes :: "path \<Rightarrow> node option"
  fresh :: "(string \<times> string) list"
  rejects :: "path \<Rightarrow> string \<Rightarrow> bool"

text \<open>What the code does to the file tree, in the order it does it.\<close>

datatype io_event =
    EvStat path
  | EvMkdirAll path
  | EvMkdir path
  | EvRead path
  | EvWrite path string
  | EvPath string

type_synonym 'a io = "world \<Rightarrow> (error + 'a) \<times> world \<times> io_event list"

definition io_bind :: "'a io \<Rightarrow> ('a \<Rightarrow> 'b io) \<Rightarrow> 'b io" where
  "io_bind m f w =
     (case m w of
        (Inl err, w1, l1) \<Rightarrow> (Inl err, w1, l1)
      | (Inr x, w1, l1) \<Rightarrow> (case f x w1 of (r, w2, l2) \<Rightarrow> (r, w2, l1 @ l2)))"

definition io_return :: "'a \<Rightarrow> 'a io" where
  "io_return x w = (Inr x, w, [])"

definition lookup :: "world \<Rightarrow> path \<Rightarrow> node option" where
  "lookup w p = (if p = [] then Some Dir else nodes w p)"

definition is_file :: "node option \<Rightarrow> bool" where
  "is_file n = (case n of Some (File _) \<Rightarrow> True | _ \<Rightarrow> False)"

text \<open>A path is blocked when one of its proper ancestors is a regular file.\<close>

definition blocked :: "world \<Rightarrow> path \<Rightarrow> bool" where
  "blocked w p = list_ex (\<lambda>q. is_file (lookup w q)) (butlast (prefixes p))"

definition os_IsNotExist :: "error \<Rightarrow> bool" where
  "os_IsNotExist err = (case err of PathError ENOENT _ \<Rightarrow> True | _ \<Rightarrow> False)"

definition os_IsExist :: "error \<Rightarrow> bool" where
  "os_IsExist err = (case err of PathError EEXIST _ \<Rightarrow> True | _ \<Rightarrow> False)"

definition os_Stat :: "path \<Rightarrow> unit io" where
  "os_Stat p w =
     (if blocked w p then (Inl (PathError ENOTDIR p), w, [EvStat p])
      else case lookup w p of
             None \<Rightarrow> (Inl (PathError ENOENT p), w, [EvStat p])
           | Some _ \<Rightarrow> (Inr (), w, [EvStat p]))"

text \<open>
  A directory made inside the hierarchy appears with the kernel's control files in it.
\<close>

definition create_dir :: "path \<Rightarrow> world \<Rightarrow> world" where
  "create_dir p w = w\<lparr>nodes := (\<lambda>q.
      if q = p then Some Dir
      else if q \<noteq> [] \<and> butlast q = p then
        (case map_of (fresh w) (last q) of Some c \<Rightarrow> Some (File c) | None \<Rightarrow> nodes w q)
      else nodes w q)\<rparr>"

text \<open>
  \<open>os.Mkdir\<close> makes one directory: its parent must be there and the path must be free.
  \<open>EvMkdir\<close> records a directory that was made.
\<close>

definition os_Mkdir :: "path \<Rightarrow> unit io" where
  "os_Mkdir p w =
     (if blocked w p then (Inl (PathError ENOTDIR p), w, [])
      else if lookup w (butlast p) = None then (Inl (PathError ENOENT p), w, [])
      else if lookup w p \<noteq> None then (Inl (PathError EEXIST p), w, [])
      else (Inr (), create_dir p w, [EvMkdir p]))"

text \<open>
  \<open>os.MkdirAll\<close> as Go's library has it. A path that \<open>Stat\<close> finds is no error when it
  is a directory, and \<open>ENOTDIR\<close> on that path when it is not. Otherwise the parent is
  made first, by the same function, unless the parent is \<open>/\<close>; an error of that call is
  returned as it is, so it names the file that is in the way. Then the directory itself is
  made with \<open>os.Mkdir\<close>, whose error is returned unless the path is a directory after all.
  The calls of \<open>Stat\<close> inside the library function are not recorded.
\<close>

function MkdirAll :: "path \<Rightarrow> unit io" where
  "MkdirAll p w =
     (case os_Stat p w of
        (Inr _, _, _) \<Rightarrow>
          if lookup w p = Some Dir then (Inr (), w, [])
          else (Inl (PathError ENOTDIR p), w, [])
      | (Inl _, _, _) \<Rightarrow>
          (case (if 1 < length p then MkdirAll (butlast p) w else (Inr (), w, [])) of
             (Inl err, w1, l1) \<Rightarrow> (Inl err, w1, l1)
           | (Inr _, w1, l1) \<Rightarrow>
               (case os_Mkdir p w1 of
                  (Inl err, w2, l2) \<Rightarrow>
                    if fst (os_Stat p w2) = Inr () \<and> lookup w2 p = Some Dir
                    then (Inr (), w2, l1 @ l2)
                    else (Inl err, w2, l1 @ l2)
                | (Inr _, w2, l2) \<Rightarrow> (Inr (), w2, l1 @ l2))))"
  by pat_completeness auto

termination MkdirAll
  by (relation "measure (\<lambda>(p, w). length p)") (auto simp: less_Suc_eq_le intro: diff_less)

declare MkdirAll.simps [simp del]

text \<open>The call as the code makes it, recorded as \<open>EvMkdirAll\<close>.\<close>

definition os_MkdirAll :: "path \<Rightarrow> unit io" where
  "os_MkdirAll p w = (case MkdirAll p w of (r, w1, l1) \<Rightarrow> (r, w1, EvMkdirAll p # l1))"

definition ioutil_ReadFile :: "path \<Rightarrow> string io" where
  "ioutil_ReadFile p w =
     (if blocked w p then (Inl (PathError ENOTDIR p), w, [EvRead p])
      else case lookup w p of
             None \<Rightarrow> (Inl (PathError ENOENT p), w, [EvRead p])
           | Some Dir \<Rightarrow> (Inl (PathError EISDIR p), w, [EvRead p])
           | Some (File c) \<Rightarrow> (Inr c, w, [EvRead p]))"

text \<open>
  \<open>ioutil.WriteFile\<close> opens with create and truncate: the directory must exist, the
  path must not be a directory, and the kernel may refuse the value.
\<close>

definition ioutil_WriteFile :: "path \<Rightarrow> string \<Rightarrow> unit io" where
  "ioutil_WriteFile p v w =
     (if blocked w p then (Inl (PathError ENOTDIR p), w, [EvWrite p v])
      else if p = [] \<or> lookup w p = Some Dir then (Inl (PathError EISDIR p), w, [EvWrite p v])
      else if lookup w (butlast p) = None then (Inl (PathError ENOENT p), w, [EvWrite p v])
      else if rejects w p v then (Inl (PathError EINVAL p), w, [EvWrite p v])
      else (Inr (), w\<lparr>nodes := (nodes w)(p \<mapsto> File v)\<rparr>, [EvWrite p v]))"

definition filepath_Dir :: "path \<Rightarrow> path" where
  "filepath_Dir p = butlast p"

definition filepath_Join :: "path \<Rightarrow> string \<Rightarrow> path" where
  "filepath_Join dir file = dir @ [file]"

text \<open>
  Modelled from the spec: \<open>writeFile(dir, file, data)\<close> is defined outside the files
  shown; it writes \<open>data\<close> to the file \<open>file\<close> of the controller directory \<open>dir\<close>.
\<close>

definition writeFile :: "path \<Rightarrow> string \<Rightarrow> string \<Rightarrow> unit io" where
  "writeFile dir file v = ioutil_WriteFile (filepath_Join dir file) v"

section \<open>cpuset.go\<close>

record cgroup =
  Name :: string
  Parent :: string
  Memory :: "64 word"
  CpuShares :: "64 word"
  CpusetCpus :: string

record data =
  data_c :: cgroup
  data_pid :: int

text \<open>
  The collaborators whose code is not among the files shown are parameters:
  \<open>d.path\<close>, \<open>getCgroupData\<close>, \<open>cgroups.FindCgroupMountpoint\<close> and
  \<open>cgroups.GetInitCgroupDir\<close>. They only look at the system.
\<close>

record env =
  data_path :: "data \<Rightarrow> string \<Rightarrow> world \<Rightarrow> error + path"
  getCgroupData :: "cgroup \<Rightarrow> int \<Rightarrow> world \<Rightarrow> error + data"
  FindCgroupMountpoint :: "string \<Rightarrow> world \<Rightarrow> error + path"
  GetInitCgroupDir :: "string \<Rightarrow> world \<Rightarrow> error + path"

definition d_path :: "env \<Rightarrow> data \<Rightarrow> string \<Rightarrow> path io" where
  "d_path E d name w = (data_path E d name w, w, [EvPath name])"

definition digit_char :: "nat \<Rightarrow> char" where
  "digit_char n = char_of (48 + n)"

fun digits :: "nat \<Rightarrow> string" where
  "digits n = (if n < 10 then [digit_char n] else digits (n div 10) @ [digit_char (n mod 10)])"

declare digits.simps [simp del]

definition strconv_Itoa :: "int \<Rightarrow> string" where
  "strconv_Itoa i = (if i < 0 then CHR ''-'' # digits (nat (- i)) else digits (nat i))"

definition bytes_Trim :: "string \<Rightarrow> string \<Rightarrow> string" where
  "bytes_Trim b cutset =
     rev (dropWhile (\<lambda>x. x \<in> set cutset) (rev (dropWhile (\<lambda>x. x \<in> set cutset) b)))"

definition isEmpty :: "string \<Rightarrow> bool" where
  "isEmpty b = (length (bytes_Trim b [CHR 0x0A]) = 0)"

definition getSubsystemSettings :: "path \<Rightarrow> (string \<times> string) io" where
  "getSubsystemSettings parent =
     io_bind (ioutil_ReadFile (filepath_Join parent ''cpuset.cpus'')) (\<lambda>cpus.
     io_bind (ioutil_ReadFile (filepath_Join parent ''cpuset.mems'')) (\<lambda>mems.
     io_return (cpus, mems)))"

definition copyIfNeeded :: "path \<Rightarrow> path \<Rightarrow> unit io" where
  "copyIfNeeded current parent =
     io_bind (getSubsystemSettings current) (\<lambda>(currentCpus, currentMems).
     io_bind (getSubsystemSettings parent) (\<lambda>(parentCpus, parentMems).
     io_bind (if isEmpty currentCpus then writeFile current ''cpuset.cpus'' parentCpus
              else io_return ()) (\<lambda>_.
     io_bind (if isEmpty currentMems then writeFile current ''cpuset.mems'' parentMems
              else io_return ()) (\<lambda>_.
     io_return ()))))"

text \<open>Lines 82 to 85 of \<open>ensureParent\<close>: make the directory, then inherit the masks.\<close>

definition ensureParent_mkdir :: "path \<Rightarrow> path \<Rightarrow> unit io" where
  "ensureParent_mkdir current parent w =
     (case os_MkdirAll current w of
        (Inl err, w1, l1) \<Rightarrow>
          if \<not> os_IsExist err then (Inl err, w1, l1)
          else (case copyIfNeeded current parent w1 of (r, w2, l2) \<Rightarrow> (r, w2, l1 @ l2))
      | (Inr _, w1, l1) \<Rightarrow>
          (case copyIfNeeded current parent w1 of (r, w2, l2) \<Rightarrow> (r, w2, l1 @ l2)))"

function ensureParent :: "path \<Rightarrow> unit io" where
  "ensureParent current w =
     (case os_Stat (filepath_Dir current) w of
        (Inl err, w1, l1) \<Rightarrow>
          if \<not> os_IsNotExist err then (Inl err, w1, l1)
          else (case ensureParent (filepath_Dir current) w1 of
                  (Inl err2, w2, l2) \<Rightarrow> (Inl err2, w2, l1 @ l2)
                | (Inr _, w2, l2) \<Rightarrow>
                    (case ensureParent_mkdir current (filepath_Dir current) w2 of
                       (r, w3, l3) \<Rightarrow> (r, w3, l1 @ l2 @ l3)))
      | (Inr _, w1, l1) \<Rightarrow>
          (case ensureParent_mkdir current (filepath_Dir current) w1 of
             (r, w3, l3) \<Rightarrow> (r, w3, l1 @ l3)))"
  by pat_completeness auto

text \<open>
  The walk of \<open>ensureParent\<close> towards the root ends: it only goes up from a directory
  whose parent is missing, and \<open>/\<close> is never missing.
\<close>

lemma os_Stat_root: "os_Stat [] w = (Inr (), w, [EvStat []])"
  by (simp add: os_Stat_def blocked_def lookup_def)

lemma os_Stat_ENOENT_nonempty:
  assumes "os_Stat p w = (Inl err, w1, l1)"
  shows "p \<noteq> []"
  using assms by (auto simp: os_Stat_root)

termination ensureParent
  apply (relation "measure (\<lambda>(p, w). length p)")
   apply simp
  apply (auto dest!: os_Stat_ENOENT_nonempty [OF sym] simp: filepath_Dir_def)
  subgoal for current by (cases current) simp_all
  done

declare ensureParent.simps [simp del]

definition SetDir :: "path \<Rightarrow> string \<Rightarrow> int \<Rightarrow> unit io" where
  "SetDir dir v pid =
     io_bind (ensureParent dir) (\<lambda>_.
     io_bind (writeFile dir ''cgroup.procs'' (strconv_Itoa pid)) (\<lambda>_.
     io_bind (writeFile dir ''cpuset.cpus'' v) (\<lambda>_.
     io_return ())))"

definition CpusetGroup_Set :: "env \<Rightarrow> data \<Rightarrow> unit io" where
  "CpusetGroup_Set E d =
     (if CpusetCpus (data_c d) \<noteq> ''''
      then io_bind (d_path E d ''cpuset'') (\<lambda>dir.
             SetDir dir (CpusetCpus (data_c d)) (data_pid d))
      else io_return ())"

section \<open>access.go\<close>

definition AccessaibleSubsystems :: "(string \<times> string list) list" where
  "AccessaibleSubsystems =
     [(''cpu'', [''cpu.shares'', ''cpu.cfs_period_us'', ''cpu.cfs_quota_us'']),
      (''cpuset'', [''cpuset.cpus'']),
      (''memory'', [''memory.limit_in_bytes'', ''memory.soft_limit_in_bytes'',
                    ''memory.memsw.limit_in_bytes'']),
      (''freezer'', [''freezer.state''])]"

text \<open>
  \<open>findGroup\<close> ranges over the map and, inside, over the file names of each group. The
  map is ranged over here in the order it is written in; no file name is listed under
  two groups, so any other order finds the same group (\<open>findGroup_any_order\<close>).
\<close>

fun findGroup_in :: "(string \<times> string list) list \<Rightarrow> string \<Rightarrow> error + string" where
  "findGroup_in [] subsystem = Inl ErrCanNotAccess"
| "findGroup_in ((grp, subsystems) # rest) subsystem =
     (if subsystem \<in> set subsystems then Inr grp else findGroup_in rest subsystem)"

definition findGroup :: "string \<Rightarrow> error + string" where
  "findGroup subsystem = findGroup_in AccessaibleSubsystems subsystem"

text \<open>
  \<open>path.Join\<close> joins its elements with slashes and cleans the result. An element is
  given by its components, the pieces between its slashes (\<open>path_elem\<close>). Cleaning drops
  the empty components and the components \<open>.\<close>, and a component \<open>..\<close> takes away the
  component before it, or nothing at the root. The first element joined by \<open>getPath\<close> is
  the hierarchy root, an absolute path, so the result is an absolute path too.
\<close>

fun path_elem :: "string \<Rightarrow> string list" where
  "path_elem [] = [[]]"
| "path_elem (c # cs) =
     (if c = CHR ''/'' then [] # path_elem cs
      else (c # hd (path_elem cs)) # tl (path_elem cs))"

definition path_Clean_step :: "path \<Rightarrow> string \<Rightarrow> path" where
  "path_Clean_step acc c =
     (if c = [] \<or> c = ''.'' then acc
      else if c = ''..'' then butlast acc
      else acc @ [c])"

definition path_Clean :: "string list \<Rightarrow> path" where
  "path_Clean cs = foldl path_Clean_step [] cs"

definition path_Join :: "string list list \<Rightarrow> path" where
  "path_Join ps = path_Clean (concat ps)"

definition path_string :: "path \<Rightarrow> string" where
  "path_string p = (if p = [] then ''/'' else concat (map (\<lambda>c. ''/'' @ c) p))"

definition getPath :: "env \<Rightarrow> string \<Rightarrow> string \<Rightarrow> string \<Rightarrow> path io" where
  "getPath E ident driver subsystem w =
     (case FindCgroupMountpoint E ''cpu'' w of
        Inl err \<Rightarrow> (Inl err, w, [])
      | Inr mnt \<Rightarrow>
          (case os_Stat (filepath_Dir mnt) w of
             (Inl _, w1, l1) \<Rightarrow> (Inl (Errorf ''cgroups fs not found''), w1, l1)
           | (Inr _, w1, l1) \<Rightarrow>
               (case findGroup subsystem of
                  Inl err \<Rightarrow> (Inl err, w1, l1)
                | Inr grp \<Rightarrow>
                    (case GetInitCgroupDir E grp w1 of
                       Inl err \<Rightarrow> (Inl err, w1, l1)
                     | Inr initPath \<Rightarrow>
                         (let p = path_Join [filepath_Dir mnt, path_elem grp, initPath,
                                    path_elem driver, path_elem ident, path_elem subsystem]
                          in case os_Stat p w1 of
                               (Inl _, w2, l2) \<Rightarrow>
                                 (Inl (Errorf (path_string p @ '' not found'')), w2, l1 @ l2)
                             | (Inr _, w2, l2) \<Rightarrow> (Inr p, w2, l1 @ l2))))))"

definition fs_Set :: "env \<Rightarrow> string \<Rightarrow> string \<Rightarrow> string \<Rightarrow> string \<Rightarrow> unit io" where
  "fs_Set E ident driver subsystem v =
     io_bind (getPath E ident driver subsystem) (\<lambda>p. ioutil_WriteFile p v)"

definition strings_TrimSuffix :: "string \<Rightarrow> string \<Rightarrow> string" where
  "strings_TrimSuffix s suf =
     (if suffix suf s then take (length s - length suf) s else s)"

definition fs_Get :: "env \<Rightarrow> string \<Rightarrow> string \<Rightarrow> string \<Rightarrow> string io" where
  "fs_Get E ident driver subsystem =
     io_bind (getPath E ident driver subsystem) (\<lambda>p.
     io_bind (ioutil_ReadFile p) (\<lambda>data.
     io_return (strings_TrimSuffix data [CHR 0x0A])))"

text \<open>
  A controller. The implementations of \<open>Apply\<close> and \<open>GetStats\<close> of the registered
  controllers are not among the files shown, so a controller is any pair of such
  operations; \<open>'st\<close> is \<open>cgroups.Stats\<close>.
\<close>

record 'st subsystem =
  Apply :: "data \<Rightarrow> unit io"
  GetStats :: "path \<Rightarrow> 'st \<Rightarrow> 'st io"

text \<open>
  What \<open>SetResources\<close> and \<open>GetAllStats\<close> call, in order: the calls they make
  themselves, and between them whatever the controller called did to the file tree.
\<close>

datatype event =
    IO io_event
  | CallApply string
  | CallPath string
  | CallGetStats string path

definition supportedSubsystems ::
    "'st subsystem \<Rightarrow> 'st subsystem \<Rightarrow> 'st subsystem \<Rightarrow> (string \<times> 'st subsystem) list" where
  "supportedSubsystems MemoryGroup CpuGroup CpusetGroup =
     [(''memory'', MemoryGroup), (''cpu'', CpuGroup), (''cpuset'', CpusetGroup)]"

text \<open>
  The loop of \<open>SetResources\<close>. Go ranges over a map in an order it does not fix, so the
  sequence that \<open>range\<close> yields on this call is an argument, \<open>order\<close>.
\<close>

fun SetResources_loop ::
    "(string \<times> 'st subsystem) list \<Rightarrow> data \<Rightarrow> world \<Rightarrow> (error + unit) \<times> world \<times> event list" where
  "SetResources_loop [] d w = (Inr (), w, [])"
| "SetResources_loop ((name, sys) # rest) d w =
     (case Apply sys d w of
        (Inl err, w1, l1) \<Rightarrow> (Inl err, w1, CallApply name # map IO l1)
      | (Inr _, w1, l1) \<Rightarrow>
          (case SetResources_loop rest d w1 of
             (r, w2, l2) \<Rightarrow> (r, w2, CallApply name # map IO l1 @ l2)))"

definition SetResources ::
    "env \<Rightarrow> (string \<times> 'st subsystem) list \<Rightarrow> cgroup \<Rightarrow> int \<Rightarrow> world
       \<Rightarrow> (error + data) \<times> world \<times> event list" where
  "SetResources E order c pid w =
     (case getCgroupData E c pid w of
        Inl err \<Rightarrow> (Inl err, w, [])
      | Inr d \<Rightarrow>
          (case SetResources_loop order d w of
             (Inl err, w1, l1) \<Rightarrow> (Inl err, w1, l1)
           | (Inr _, w1, l1) \<Rightarrow> (Inr d, w1, l1)))"

definition cgroups_IsNotFound :: "error \<Rightarrow> bool" where
  "cgroups_IsNotFound err = (case err of NotFoundError _ \<Rightarrow> True | _ \<Rightarrow> False)"

fun GetAllStats_loop ::
    "env \<Rightarrow> (string \<times> 'st subsystem) list \<Rightarrow> data \<Rightarrow> 'st \<Rightarrow> world
       \<Rightarrow> (error + 'st) \<times> world \<times> event list" where
  "GetAllStats_loop E [] d stats w = (Inr stats, w, [])"
| "GetAllStats_loop E ((name, sys) # rest) d stats w =
     (case Apply sys d w of
        (Inl err, w1, l1) \<Rightarrow> (Inl err, w1, CallApply name # map IO l1)
      | (Inr _, w1, l1) \<Rightarrow>
          (case data_path E d name w1 of
             Inl err \<Rightarrow>
               if cgroups_IsNotFound err
               then (case GetAllStats_loop E rest d stats w1 of
                       (r, w3, l3) \<Rightarrow>
                         (r, w3, CallApply name # map IO l1 @ CallPath name # l3))
               else (Inl err, w1, CallApply name # map IO l1 @ [CallPath name])
           | Inr p \<Rightarrow>
               (case GetStats sys p stats w1 of
                  (Inl err, w2, l2) \<Rightarrow>
                    (Inl err, w2, CallApply name # map IO l1 @ CallPath name #
                                  CallGetStats name p # map IO l2)
                | (Inr stats', w2, l2) \<Rightarrow>
                    (case GetAllStats_loop E rest d stats' w2 of
                       (r, w3, l3) \<Rightarrow>
                         (r, w3, CallApply name # map IO l1 @ CallPath name #
                                 CallGetStats name p # map IO l2 @ l3)))))"

definition GetAllStats ::
    "env \<Rightarrow> 'st \<Rightarrow> (string \<times> 'st subsystem) list \<Rightarrow> cgroup \<Rightarrow> int \<Rightarrow> world
       \<Rightarrow> (error + 'st) \<times> world \<times> event list" where
  "GetAllStats E NewStats order c pid w =
     (case getCgroupData E c pid w of
        Inl err \<Rightarrow> (Inl err, w, [])
      | Inr d \<Rightarrow> GetAllStats_loop E order d NewStats w)"

section \<open>The daemon's ContainerLimit job\<close>

record config =
  cfg_Memory :: "64 word"
  cfg_CpuShares :: "64 word"
  cfg_Cpuset :: string

record 'c container =
  ID :: string
  Pid :: int
  IsRunning :: bool
  Config :: "'c config_scheme"

record job =
  Args :: "string list"
  JobName :: string
  env_memory :: "64 word"
  env_cpuShares :: "64 word"
  env_cpuset :: string
  env_saveChanges :: bool

record 'c daemon =
  daemon_Get :: "string \<Rightarrow> error + 'c container"
  driver_Parent :: string
  ToDisk :: "'c container \<Rightarrow> error option"

datatype failure =
    Usage string
  | GetFailed error
  | AlreadyStopped
  | ChangeFailed string error
  | SaveFailed string error

datatype status = StatusOK | StatusErr failure

text \<open>Lines 41 to 49 of \<open>ContainerLimit\<close>: the three guarded assignments.\<close>

definition save_config :: "cgroup \<Rightarrow> 'c container \<Rightarrow> 'c container" where
  "save_config c container =
     (let c1 = (if Memory c \<noteq> 0
                then container\<lparr>Config := (Config container)\<lparr>cfg_Memory := Memory c\<rparr>\<rparr>
                else container);
          c2 = (if CpuShares c \<noteq> 0
                then c1\<lparr>Config := (Config c1)\<lparr>cfg_CpuShares := CpuShares c\<rparr>\<rparr>
                else c1);
          c3 = (if CpusetCpus c \<noteq> ''''
                then c2\<lparr>Config := (Config c2)\<lparr>cfg_Cpuset := CpusetCpus c\<rparr>\<rparr>
                else c2)
      in c3)"

definition ContainerLimit ::
    "env \<Rightarrow> (string \<times> 'st subsystem) list \<Rightarrow> 'c daemon \<Rightarrow> job \<Rightarrow> world
       \<Rightarrow> status \<times> 'c container option \<times> world \<times> event list" where
  "ContainerLimit E order D j w =
     (if length (Args j) \<noteq> 1 then (StatusErr (Usage (JobName j)), None, w, [])
      else
        (case daemon_Get D (hd (Args j)) of
           Inl err \<Rightarrow> (StatusErr (GetFailed err), None, w, [])
         | Inr container \<Rightarrow>
             if \<not> IsRunning container then (StatusErr AlreadyStopped, Some container, w, [])
             else
               (let c = \<lparr>Name = ID container, Parent = driver_Parent D,
                         Memory = env_memory j, CpuShares = env_cpuShares j,
                         CpusetCpus = env_cpuset j\<rparr>
                in case SetResources E order c (Pid container) w of
                     (Inl err, w1, l1) \<Rightarrow>
                       (StatusErr (ChangeFailed (ID container) err), Some container, w1, l1)
                   | (Inr _, w1, l1) \<Rightarrow>
                       if env_saveChanges j then
                         (case ToDisk D (save_config c container) of
                            Some err \<Rightarrow>
                              (StatusErr (SaveFailed (ID container) err),
                               Some (save_config c container), w1, l1)
                          | None \<Rightarrow> (StatusOK, Some (save_config c container), w1, l1))
                       else (StatusOK, Some container, w1, l1))))"

section \<open>What the properties are stated with\<close>

definition is_write :: "io_event \<Rightarrow> bool" where
  "is_write e = (case e of EvWrite _ _ \<Rightarrow> True | _ \<Rightarrow> False)"

text \<open>The world after a write of \<open>v\<close> to the file \<open>p\<close> that went through.\<close>

definition upd :: "world \<Rightarrow> path \<Rightarrow> string \<Rightarrow> world" where
  "upd w p v = w\<lparr>nodes := (nodes w)(p \<mapsto> File v)\<rparr>"

text \<open>One of the two guarded writes of \<open>copyIfNeeded\<close> (lines 104 to 113).\<close>

definition copy_mask :: "path \<Rightarrow> string \<Rightarrow> string \<Rightarrow> string \<Rightarrow> unit io" where
  "copy_mask current file cur par =
     (if isEmpty cur then writeFile current file par else io_return ())"

text \<open>The controllers whose \<open>Apply\<close> was called, in the order of the calls.\<close>

fun applied :: "event list \<Rightarrow> string list" where
  "applied [] = []"
| "applied (CallApply n # es) = n # applied es"
| "applied (_ # es) = applied es"

text \<open>
  The calls of a run are well sequenced when a controller's path is only resolved right
  after its own \<open>Apply\<close> was called, and its stats are only read right after its own path
  was resolved; \<open>prev\<close> is the last call made so far.
\<close>

fun well_sequenced :: "event option \<Rightarrow> event list \<Rightarrow> bool" where
  "well_sequenced prev [] = True"
| "well_sequenced prev (IO _ # es) = well_sequenced prev es"
| "well_sequenced prev (CallApply n # es) = well_sequenced (Some (CallApply n)) es"
| "well_sequenced prev (CallPath n # es) =
     (prev = Some (CallApply n) \<and> well_sequenced (Some (CallPath n)) es)"
| "well_sequenced prev (CallGetStats n p # es) =
     (prev = Some (CallPath n) \<and> well_sequenced (Some (CallGetStats n p)) es)"

text \<open>The directories made, in the order they were made.\<close>

fun made :: "io_event list \<Rightarrow> path list" where
  "made [] = []"
| "made (EvMkdir q # es) = q # made es"
| "made (_ # es) = made es"

text \<open>Both masks of a directory are files with something in them.\<close>

definition masks_set :: "world \<Rightarrow> path \<Rightarrow> bool" where
  "masks_set w p =
     (case (nodes w (p @ [''cpuset.cpus'']), nodes w (p @ [''cpuset.mems''])) of
        (Some (File c), Some (File m)) \<Rightarrow> \<not> isEmpty c \<and> \<not> isEmpty m
      | _ \<Rightarrow> False)"

text \<open>A path and all its ancestors are directories.\<close>

definition dir_chain :: "world \<Rightarrow> path \<Rightarrow> bool" where
  "dir_chain w p = list_all (\<lambda>q. lookup w q = Some Dir) (prefixes p)"

text \<open>The directories from just below \<open>root\<close> down to \<open>root @ ds\<close>, root side first.\<close>

definition chain :: "path \<Rightarrow> path \<Rightarrow> path list" where
  "chain root ds = map ((@) root) (tl (prefixes ds))"

text \<open>
  What bootstrapping a directory may do: look, make directories, read, and write mask
  files. It writes no other file and resolves no path.
\<close>

definition boot_event :: "io_event \<Rightarrow> bool" where
  "boot_event e =
     (case e of
        EvWrite p v \<Rightarrow> p \<noteq> [] \<and> last p \<in> {''cpuset.cpus'', ''cpuset.mems''}
      | EvPath _ \<Rightarrow> False
      | _ \<Rightarrow> True)"

section \<open>Example systems\<close>

text \<open>
  A hierarchy mounted at \<open>/cg\<close>: \<open>d.path\<close> resolves a controller directory to
  \<open>/cg/<controller>/<name>\<close> and reports \<open>NotFoundError\<close> when it is missing.
\<close>

definition E_example :: env where
  "E_example =
     \<lparr>data_path = (\<lambda>d name w.
         if lookup w [''cg'', name, Name (data_c d)] = None then Inl (NotFoundError name)
         else Inr [''cg'', name, Name (data_c d)]),
      getCgroupData = (\<lambda>c pid w. Inr \<lparr>data_c = c, data_pid = pid\<rparr>),
      FindCgroupMountpoint = (\<lambda>name w. Inr [''cg'', name]),
      GetInitCgroupDir = (\<lambda>name w. Inr [])\<rparr>"

definition d_unset :: data where
  "d_unset = \<lparr>data_c = \<lparr>Name = ''c1'', Parent = ''docker'', Memory = 0, CpuShares = 0,
                          CpusetCpus = ''''\<rparr>,
              data_pid = 42\<rparr>"

text \<open>
  A directory \<open>/cg/a\<close> whose cpu mask is still the empty line the kernel starts it with
  and whose memory-node mask is set, under a configured parent.
\<close>

definition w_masks :: world where
  "w_masks = \<lparr>nodes = [[''cg''] \<mapsto> Dir,
                        [''cg'', ''cpuset.cpus''] \<mapsto> File ''0-3'',
                        [''cg'', ''cpuset.mems''] \<mapsto> File ''0'',
                        [''cg'', ''a''] \<mapsto> Dir,
                        [''cg'', ''a'', ''cpuset.cpus''] \<mapsto> File [CHR 0x0A],
                        [''cg'', ''a'', ''cpuset.mems''] \<mapsto> File ''1''],
              fresh = [], rejects = (\<lambda>p v. False)\<rparr>"

text \<open>
  Two controllers to run the loops on: one whose \<open>Apply\<close> writes a file into \<open>/cg\<close> and
  whose \<open>GetStats\<close> records the directory it was given, and one whose \<open>Apply\<close> fails.
\<close>

definition ctl_ok :: "string \<Rightarrow> string list subsystem" where
  "ctl_ok file =
     \<lparr>Apply = (\<lambda>d. writeFile [''cg''] file ''1''),
      GetStats = (\<lambda>p stats. io_return (path_string p # stats))\<rparr>"

definition ctl_fail :: "string list subsystem" where
  "ctl_fail =
     \<lparr>Apply = (\<lambda>d w. (Inl (OtherError ''apply failed''), w, [])),
      GetStats = (\<lambda>p stats. io_return stats)\<rparr>"

definition c_unset :: cgroup where
  "c_unset = \<lparr>Name = ''c1'', Parent = ''docker'', Memory = 0, CpuShares = 0,
              CpusetCpus = ''''\<rparr>"

text \<open>A hierarchy in which the workload \<open>c1\<close> has joined the memory controller only.\<close>

definition w_stats :: world where
  "w_stats = \<lparr>nodes = [[''cg''] \<mapsto> Dir,
                        [''cg'', ''memory''] \<mapsto> Dir,
                        [''cg'', ''memory'', ''c1''] \<mapsto> Dir],
              fresh = [], rejects = (\<lambda>p v. False)\<rparr>"

text \<open>A system with no control hierarchy mounted: nothing exists but \<open>/\<close>.\<close>

definition w_empty :: world where
  "w_empty = \<lparr>nodes = (\<lambda>p. None), fresh = [], rejects = (\<lambda>p v. False)\<rparr>"

text \<open>A system on which the cpu hierarchy is not mounted: the mount point lookup fails.\<close>

definition E_nomount :: env where
  "E_nomount = E_example\<lparr>FindCgroupMountpoint := (\<lambda>name w. Inl (NotFoundError name))\<rparr>"

text \<open>
  A hierarchy at \<open>/cg\<close> in which the workloads \<open>c1\<close> and \<open>c2\<close> of the driver \<open>docker\<close>
  have joined the cpu controller.
\<close>

definition w_access :: world where
  "w_access = \<lparr>nodes = [[''cg''] \<mapsto> Dir,
                         [''cg'', ''cpu''] \<mapsto> Dir,
                         [''cg'', ''cpu'', ''docker''] \<mapsto> Dir,
                         [''cg'', ''cpu'', ''docker'', ''c1''] \<mapsto> Dir,
                         [''cg'', ''cpu'', ''docker'', ''c1'', ''cpu.shares''] \<mapsto>
                           File (''1024'' @ [CHR 0x0A]),
                         [''cg'', ''cpu'', ''docker'', ''c2''] \<mapsto> Dir,
                         [''cg'', ''cpu'', ''docker'', ''c2'', ''cpu.shares''] \<mapsto>
                           File (''512'' @ [CHR 0x0A])],
               fresh = [], rejects = (\<lambda>p v. False)\<rparr>"

text \<open>
  A running container with a stored configuration, and the request of the spec's
  scenario: a new memory limit, the other fields unset, to be saved.
\<close>

definition container_example :: "unit container" where
  "container_example =
     \<lparr>ID = ''c1'', Pid = 42, IsRunning = True,
      Config = \<lparr>cfg_Memory = 100, cfg_CpuShares = 512, cfg_Cpuset = ''0-1''\<rparr>\<rparr>"

definition daemon_example :: "unit daemon" where
  "daemon_example =
     \<lparr>daemon_Get = (\<lambda>name. if name = ''c1'' then Inr container_example
                             else Inl (OtherError ''no such container'')),
      driver_Parent = ''docker'',
      ToDisk = (\<lambda>c. None)\<rparr>"

definition job_example :: job where
  "job_example =
     \<lparr>Args = [''c1''], JobName = ''container_limit'', env_memory = 536870912,
      env_cpuShares = 0, env_cpuset = '''', env_saveChanges = True\<rparr>"

text \<open>
  The spec's second scenario: the parent \<open>/cg\<close> has masks \<open>0-3\<close> and \<open>0\<close>, the workload's
  own directory does not exist yet, and the kernel starts a new directory with the two
  mask files holding an empty line.
\<close>

definition w_boot :: world where
  "w_boot = \<lparr>nodes = [[''cg''] \<mapsto> Dir,
                       [''cg'', ''cpuset.cpus''] \<mapsto> File ''0-3'',
                       [''cg'', ''cpuset.mems''] \<mapsto> File ''0''],
             fresh = [(''cpuset.cpus'', [CHR 0x0A]), (''cpuset.mems'', [CHR 0x0A])],
             rejects = (\<lambda>p v. False)\<rparr>"

section \<open>The cpuset controller is opt-in\<close>

text \<open>
  C3. When the spec's \<open>CpusetCpus\<close> mask is empty, the cpuset controller's \<open>Set\<close>
  returns success at once: the world is the one it started in and it did nothing (no
  path resolved, no file read or written). A spec with every field unset is such a spec,
  so this controller changes no kernel file for it.
\<close>

theorem CpusetGroup_Set_unset_noop:
  assumes "CpusetCpus (data_c d) = ''''"
  shows "CpusetGroup_Set E d w = (Inr (), w, [])"
  using assms by (simp add: CpusetGroup_Set_def io_return_def)

theorem CpusetGroup_Set_unset_noop_witness:
  "CpusetCpus (data_c d_unset) = '''' \<and> Memory (data_c d_unset) = 0 \<and>
   CpuShares (data_c d_unset) = 0 \<and>
   CpusetGroup_Set E_example d_unset w_masks = (Inr (), w_masks, [])"
proof -
  have unset: "CpusetCpus (data_c d_unset) = ''''"
    by (simp add: d_unset_def)
  from CpusetGroup_Set_unset_noop [OF unset, of E_example w_masks] unset
  show ?thesis
    by (simp add: d_unset_def)
qed

section \<open>Reading and writing the mask files\<close>

lemma ReadFile_result:
  "(\<exists>e. ioutil_ReadFile p w = (Inl e, w, [EvRead p])) \<or>
   (\<exists>c. ioutil_ReadFile p w = (Inr c, w, [EvRead p]) \<and> p \<noteq> [] \<and> nodes w p = Some (File c))"
  by (simp add: ioutil_ReadFile_def lookup_def split: option.splits node.splits)

lemma ReadFile_cases:
  obtains (fail) e where "ioutil_ReadFile p w = (Inl e, w, [EvRead p])"
  | (ok) c where "ioutil_ReadFile p w = (Inr c, w, [EvRead p])" "p \<noteq> []" "nodes w p = Some (File c)"
  using ReadFile_result [of p w] by blast

lemma WriteFile_result:
  "(\<exists>e. ioutil_WriteFile p v w = (Inl e, w, [EvWrite p v])) \<or>
   ioutil_WriteFile p v w = (Inr (), w\<lparr>nodes := (nodes w)(p \<mapsto> File v)\<rparr>, [EvWrite p v])"
  by (simp add: ioutil_WriteFile_def)

lemma WriteFile_cases:
  obtains (fail) e where "ioutil_WriteFile p v w = (Inl e, w, [EvWrite p v])"
  | (ok) "ioutil_WriteFile p v w = (Inr (), w\<lparr>nodes := (nodes w)(p \<mapsto> File v)\<rparr>, [EvWrite p v])"
  using WriteFile_result [of p v w] by blast

lemma gss_cases:
  obtains (fail1) e where "getSubsystemSettings d w = (Inl e, w, [EvRead (d @ [''cpuset.cpus''])])"
  | (fail2) e where "getSubsystemSettings d w = (Inl e, w, [EvRead (d @ [''cpuset.cpus'']), EvRead (d @ [''cpuset.mems''])])"
  | (ok) c m where "getSubsystemSettings d w = (Inr (c, m), w, [EvRead (d @ [''cpuset.cpus'']), EvRead (d @ [''cpuset.mems''])])"
       "nodes w (d @ [''cpuset.cpus'']) = Some (File c)" "nodes w (d @ [''cpuset.mems'']) = Some (File m)"
proof (cases rule: ReadFile_cases [of "d @ [''cpuset.cpus'']" w])
  case (fail e)
  then show ?thesis
    by (intro fail1 [of e]) (simp add: getSubsystemSettings_def io_bind_def filepath_Join_def)
next
  case c: (ok c)
  show ?thesis
  proof (cases rule: ReadFile_cases [of "d @ [''cpuset.mems'']" w])
    case (fail e)
    with c show ?thesis
      by (intro fail2 [of e]) (simp add: getSubsystemSettings_def io_bind_def filepath_Join_def)
  next
    case (ok m)
    with c show ?thesis
      by (intro that(3) [of c m]) (simp_all add: getSubsystemSettings_def io_bind_def io_return_def filepath_Join_def)
  qed
qed


lemma copyIfNeeded_fail:
  assumes "getSubsystemSettings current w = (Inl e, w, l)"
  shows "copyIfNeeded current parent w = (Inl e, w, l)"
  using assms by (simp add: copyIfNeeded_def io_bind_def)

lemma copyIfNeeded_fail2:
  assumes "getSubsystemSettings current w = (Inr cm, w, l)"
    and "getSubsystemSettings parent w = (Inl e, w, l')"
  shows "copyIfNeeded current parent w = (Inl e, w, l @ l')"
  using assms by (simp add: copyIfNeeded_def io_bind_def split: prod.splits)

lemma copyIfNeeded_ok:
  assumes "getSubsystemSettings current w = (Inr (cc, cm), w, l)"
    and "getSubsystemSettings parent w = (Inr (pc, pm), w, l')"
  shows "copyIfNeeded current parent w =
     (case copy_mask current ''cpuset.cpus'' cc pc w of
        (Inl e, w1, l1) \<Rightarrow> (Inl e, w1, l @ l' @ l1)
      | (Inr _, w1, l1) \<Rightarrow>
          (case copy_mask current ''cpuset.mems'' cm pm w1 of
             (r, w2, l2) \<Rightarrow> (r, w2, l @ l' @ l1 @ l2)))"
  using assms
  by (simp add: copyIfNeeded_def io_bind_def io_return_def copy_mask_def split: prod.splits sum.splits)

lemma copy_mask_result:
  "(\<not> isEmpty cur \<and> copy_mask current file cur par w = (Inr (), w, [])) \<or>
   (isEmpty cur \<and> (\<exists>e. copy_mask current file cur par w = (Inl e, w, [EvWrite (current @ [file]) par]))) \<or>
   (isEmpty cur \<and> copy_mask current file cur par w =
      (Inr (), w\<lparr>nodes := (nodes w)(current @ [file] \<mapsto> File par)\<rparr>, [EvWrite (current @ [file]) par]))"
  using WriteFile_result [of "current @ [file]" par w]
  by (auto simp: copy_mask_def io_return_def writeFile_def filepath_Join_def)


lemma copyIfNeeded_outcomes:
  fixes current parent :: path and w :: world
  defines "ccp \<equiv> current @ [''cpuset.cpus'']" and "cmp \<equiv> current @ [''cpuset.mems'']"
    and "pcp \<equiv> parent @ [''cpuset.cpus'']" and "pmp \<equiv> parent @ [''cpuset.mems'']"
  defines "R \<equiv> [EvRead ccp, EvRead cmp, EvRead pcp, EvRead pmp]"
  shows "(\<exists>e k. k \<le> 4 \<and> copyIfNeeded current parent w = (Inl e, w, take k R)) \<or>
    (\<exists>cc cm pc pm. nodes w ccp = Some (File cc) \<and> nodes w cmp = Some (File cm) \<and>
       nodes w pcp = Some (File pc) \<and> nodes w pmp = Some (File pm) \<and>
       ((isEmpty cc \<and> (\<exists>e. copyIfNeeded current parent w = (Inl e, w, R @ [EvWrite ccp pc]))) \<or>
        (\<not> isEmpty cc \<and> \<not> isEmpty cm \<and> copyIfNeeded current parent w = (Inr (), w, R)) \<or>
        (\<not> isEmpty cc \<and> isEmpty cm \<and>
           (\<exists>e. copyIfNeeded current parent w = (Inl e, w, R @ [EvWrite cmp pm]))) \<or>
        (\<not> isEmpty cc \<and> isEmpty cm \<and>
           copyIfNeeded current parent w = (Inr (), upd w cmp pm, R @ [EvWrite cmp pm])) \<or>
        (isEmpty cc \<and> \<not> isEmpty cm \<and>
           copyIfNeeded current parent w = (Inr (), upd w ccp pc, R @ [EvWrite ccp pc])) \<or>
        (isEmpty cc \<and> isEmpty cm \<and>
           (\<exists>e. copyIfNeeded current parent w =
                  (Inl e, upd w ccp pc, R @ [EvWrite ccp pc, EvWrite cmp pm]))) \<or>
        (isEmpty cc \<and> isEmpty cm \<and>
           copyIfNeeded current parent w =
             (Inr (), upd (upd w ccp pc) cmp pm, R @ [EvWrite ccp pc, EvWrite cmp pm]))))"
proof (cases rule: gss_cases [of current w])
  case (fail1 e)
  from copyIfNeeded_fail [OF this, of parent]
  have "copyIfNeeded current parent w = (Inl e, w, take 1 R)"
    by (simp add: R_def ccp_def)
  then show ?thesis by (intro disjI1 exI [of _ e] exI [of _ 1]) simp
next
  case (fail2 e)
  from copyIfNeeded_fail [OF this(1), of parent]
  have "copyIfNeeded current parent w = (Inl e, w, take 2 R)"
    by (simp add: R_def ccp_def cmp_def)
  then show ?thesis by (intro disjI1 exI [of _ e] exI [of _ 2]) simp
next
  case cur: (ok cc cm)
  show ?thesis
  proof (cases rule: gss_cases [of parent w])
    case (fail1 e)
    from copyIfNeeded_fail2 [OF cur(1) this]
    have "copyIfNeeded current parent w = (Inl e, w, take 3 R)"
      by (simp add: R_def ccp_def cmp_def pcp_def)
    then show ?thesis by (intro disjI1 exI [of _ e] exI [of _ 3]) simp
  next
    case (fail2 e)
    from copyIfNeeded_fail2 [OF cur(1) this(1)]
    have "copyIfNeeded current parent w = (Inl e, w, take 4 R)"
      by (simp add: R_def ccp_def cmp_def pcp_def pmp_def)
    then show ?thesis by (intro disjI1 exI [of _ e] exI [of _ 4]) simp
  next
    case par: (ok pc pm)
    note eq = copyIfNeeded_ok [OF cur(1) par(1)]
    have R: "[EvRead (current @ [''cpuset.cpus'']), EvRead (current @ [''cpuset.mems''])] @
             [EvRead (parent @ [''cpuset.cpus'']), EvRead (parent @ [''cpuset.mems''])] @ l = R @ l" for l
      by (simp add: R_def ccp_def cmp_def pcp_def pmp_def)
    have nd: "nodes w ccp = Some (File cc) \<and> nodes w cmp = Some (File cm) \<and>
       nodes w pcp = Some (File pc) \<and> nodes w pmp = Some (File pm)"
      using cur par by (simp add: ccp_def cmp_def pcp_def pmp_def)
    have "(isEmpty cc \<and> (\<exists>e. copyIfNeeded current parent w = (Inl e, w, R @ [EvWrite ccp pc]))) \<or>
        (\<not> isEmpty cc \<and> \<not> isEmpty cm \<and> copyIfNeeded current parent w = (Inr (), w, R)) \<or>
        (\<not> isEmpty cc \<and> isEmpty cm \<and>
           (\<exists>e. copyIfNeeded current parent w = (Inl e, w, R @ [EvWrite cmp pm]))) \<or>
        (\<not> isEmpty cc \<and> isEmpty cm \<and>
           copyIfNeeded current parent w = (Inr (), upd w cmp pm, R @ [EvWrite cmp pm])) \<or>
        (isEmpty cc \<and> \<not> isEmpty cm \<and>
           copyIfNeeded current parent w = (Inr (), upd w ccp pc, R @ [EvWrite ccp pc])) \<or>
        (isEmpty cc \<and> isEmpty cm \<and>
           (\<exists>e. copyIfNeeded current parent w =
                  (Inl e, upd w ccp pc, R @ [EvWrite ccp pc, EvWrite cmp pm]))) \<or>
        (isEmpty cc \<and> isEmpty cm \<and>
           copyIfNeeded current parent w =
             (Inr (), upd (upd w ccp pc) cmp pm, R @ [EvWrite ccp pc, EvWrite cmp pm]))"
      using copy_mask_result [of cc current "''cpuset.cpus''" pc w]
    proof (elim disjE conjE exE)
      fix e
      assume "isEmpty cc"
        and "copy_mask current ''cpuset.cpus'' cc pc w =
               (Inl e, w, [EvWrite (current @ [''cpuset.cpus'']) pc])"
      then show ?thesis
        unfolding eq R by (simp add: ccp_def)
    next
      assume ne: "\<not> isEmpty cc"
        and c1: "copy_mask current ''cpuset.cpus'' cc pc w = (Inr (), w, [])"
      from copy_mask_result [of cm current "''cpuset.mems''" pm w]
      show ?thesis
        unfolding eq R c1 using ne by (elim disjE conjE exE) (simp_all add: cmp_def upd_def)
    next
      assume em: "isEmpty cc"
        and c1: "copy_mask current ''cpuset.cpus'' cc pc w =
                   (Inr (), w\<lparr>nodes := (nodes w)(current @ [''cpuset.cpus''] \<mapsto> File pc)\<rparr>,
                    [EvWrite (current @ [''cpuset.cpus'']) pc])"
      from copy_mask_result [of cm current "''cpuset.mems''" pm
             "w\<lparr>nodes := (nodes w)(current @ [''cpuset.cpus''] \<mapsto> File pc)\<rparr>"]
      show ?thesis
        unfolding eq R c1 using em
        by (elim disjE conjE exE) (simp_all add: cmp_def ccp_def upd_def)
    qed
    with nd show ?thesis by blast
  qed
qed


text \<open>
  C5. For any two directories, \<open>copyIfNeeded\<close> writes only to the current directory's
  \<open>cpuset.cpus\<close> and \<open>cpuset.mems\<close>, writes one of them only when what it read from
  it is empty once newlines are trimmed, and writes the parent's value of the same file;
  a mask of the current directory that is not empty is the same afterwards; on success an
  empty one holds the parent's value. It reads the current directory's two files, then
  the parent's two, and only then writes.
\<close>

theorem copyIfNeeded_fills_only_empty_masks:
  assumes run: "copyIfNeeded current parent w = (r, w', evs)"
  shows "(\<forall>p v. EvWrite p v \<in> set evs \<longrightarrow>
            (\<exists>f c. f \<in> {''cpuset.cpus'', ''cpuset.mems''} \<and> p = current @ [f] \<and>
                   nodes w (current @ [f]) = Some (File c) \<and> isEmpty c \<and>
                   nodes w (parent @ [f]) = Some (File v)))
       \<and> (\<forall>f c. f \<in> {''cpuset.cpus'', ''cpuset.mems''} \<and>
                 nodes w (current @ [f]) = Some (File c) \<and> \<not> isEmpty c \<longrightarrow>
                 nodes w' (current @ [f]) = Some (File c))
       \<and> (r = Inr () \<longrightarrow>
            (\<forall>f c. f \<in> {''cpuset.cpus'', ''cpuset.mems''} \<and>
                   nodes w (current @ [f]) = Some (File c) \<and> isEmpty c \<longrightarrow>
                   nodes w' (current @ [f]) = nodes w (parent @ [f])))
       \<and> prefix (take 4 evs)
            [EvRead (current @ [''cpuset.cpus'']), EvRead (current @ [''cpuset.mems'']),
             EvRead (parent @ [''cpuset.cpus'']), EvRead (parent @ [''cpuset.mems''])]
       \<and> (\<forall>e \<in> set (drop 4 evs). is_write e)"
    (is "?writes \<and> ?keeps \<and> ?copies \<and> ?reads \<and> ?tail")
proof -
  let ?R = "[EvRead (current @ [''cpuset.cpus'']), EvRead (current @ [''cpuset.mems'']),
             EvRead (parent @ [''cpuset.cpus'']), EvRead (parent @ [''cpuset.mems''])]"
  note out = copyIfNeeded_outcomes [of current parent w, unfolded run]
  have ?writes
    using out by (elim disjE exE conjE) (auto simp: upd_def dest: in_set_takeD)
  moreover have ?keeps
    using out by (elim disjE exE conjE) (auto simp: upd_def)
  moreover have ?copies
    using out by (elim disjE exE conjE) (auto simp: upd_def)
  moreover have ?reads
    using out by (elim disjE exE conjE) (auto simp: take_is_prefix)
  moreover have ?tail
    using out by (elim disjE exE conjE) (auto simp: is_write_def)
  ultimately show ?thesis by blast
qed


lemma w_masks_run:
  "copyIfNeeded [''cg'', ''a''] [''cg''] w_masks =
     (Inr (), upd w_masks [''cg'', ''a'', ''cpuset.cpus''] ''0-3'',
      [EvRead [''cg'', ''a'', ''cpuset.cpus''], EvRead [''cg'', ''a'', ''cpuset.mems''],
       EvRead [''cg'', ''cpuset.cpus''], EvRead [''cg'', ''cpuset.mems''],
       EvWrite [''cg'', ''a'', ''cpuset.cpus''] ''0-3''])"
  by (simp add: copyIfNeeded_def getSubsystemSettings_def io_bind_def io_return_def
      ioutil_ReadFile_def ioutil_WriteFile_def writeFile_def filepath_Join_def blocked_def
      lookup_def is_file_def isEmpty_def bytes_Trim_def upd_def w_masks_def)

theorem copyIfNeeded_fills_only_empty_masks_witness:
  "copyIfNeeded [''cg'', ''a''] [''cg''] w_masks =
     (Inr (), upd w_masks [''cg'', ''a'', ''cpuset.cpus''] ''0-3'',
      [EvRead [''cg'', ''a'', ''cpuset.cpus''], EvRead [''cg'', ''a'', ''cpuset.mems''],
       EvRead [''cg'', ''cpuset.cpus''], EvRead [''cg'', ''cpuset.mems''],
       EvWrite [''cg'', ''a'', ''cpuset.cpus''] ''0-3'']) \<and>
   nodes w_masks [''cg'', ''a'', ''cpuset.mems''] = Some (File ''1'') \<and> \<not> isEmpty ''1'' \<and>
   nodes (upd w_masks [''cg'', ''a'', ''cpuset.cpus''] ''0-3'') [''cg'', ''a'', ''cpuset.mems'']
     = Some (File ''1'')"
proof -
  have a: "nodes w_masks ([''cg'', ''a''] @ [''cpuset.mems'']) = Some (File ''1'')"
    by (simp add: w_masks_def)
  have b: "\<not> isEmpty ''1''"
    by (simp add: isEmpty_def bytes_Trim_def)
  from copyIfNeeded_fills_only_empty_masks [OF w_masks_run]
  have "\<forall>f c. f \<in> {''cpuset.cpus'', ''cpuset.mems''} \<and>
           nodes w_masks ([''cg'', ''a''] @ [f]) = Some (File c) \<and> \<not> isEmpty c \<longrightarrow>
           nodes (upd w_masks [''cg'', ''a'', ''cpuset.cpus''] ''0-3'') ([''cg'', ''a''] @ [f])
             = Some (File c)"
    by blast
  with a b have "nodes (upd w_masks [''cg'', ''a'', ''cpuset.cpus''] ''0-3'')
      ([''cg'', ''a''] @ [''cpuset.mems'']) = Some (File ''1'')"
    by blast
  with a b w_masks_run show ?thesis
    by simp
qed

section \<open>SetResources\<close>

lemma SetResources_loop_append:
  "SetResources_loop (xs @ ys) d w =
     (case SetResources_loop xs d w of
        (Inl e, w1, l1) \<Rightarrow> (Inl e, w1, l1)
      | (Inr _, w1, l1) \<Rightarrow>
          (case SetResources_loop ys d w1 of (r, w2, l2) \<Rightarrow> (r, w2, l1 @ l2)))"
  by (induction xs arbitrary: w) (auto split: prod.splits sum.splits)

lemma applied_append: "applied (xs @ ys) = applied xs @ applied ys"
  by (induction xs rule: applied.induct) auto

lemma applied_IO: "applied (map IO l) = []"
  by (induction l) auto

lemma SetResources_loop_applied:
  assumes "SetResources_loop order d w = (r, w', evs)"
  shows "prefix (applied evs) (map fst order) \<and> (r = Inr () \<longrightarrow> applied evs = map fst order)"
  using assms
proof (induction order arbitrary: w r w' evs)
  case Nil
  then show ?case by simp
next
  case (Cons a order)
  obtain name sys where a: "a = (name, sys)" by (cases a)
  show ?case
  proof (cases "Apply sys d w")
    case (fields r1 w1 l1)
    show ?thesis
    proof (cases r1)
      case (Inl e)
      with Cons.prems a fields show ?thesis
        by (auto simp: applied_append applied_IO)
    next
      case (Inr u)
      obtain r2 w2 l2 where rest: "SetResources_loop order d w1 = (r2, w2, l2)"
        by (cases "SetResources_loop order d w1")
      from Cons.IH [OF rest] Cons.prems a fields Inr rest show ?thesis
        by (auto simp: applied_append applied_IO)
    qed
  qed
qed

text \<open>
  C1. Whatever the spec and pid: let the controllers that \<open>range\<close> yields before some
  controller all succeed, and let that controller's \<open>Apply\<close> return an error. Then
  \<open>SetResources\<close> returns that error; the controllers after it do not matter to the
  result and their \<open>Apply\<close> is not called (the calls made are those of the controllers
  before it and its own); and the world returned is the one the failing \<open>Apply\<close> left,
  which it was handed by the controllers that succeeded: nothing is undone.
\<close>

theorem SetResources_stops_at_first_failure:
  assumes "getCgroupData E c pid w = Inr d"
    and "SetResources_loop xs d w = (Inr (), w1, l1)"
    and "Apply sys d w1 = (Inl err, w2, l2)"
  shows "SetResources E (xs @ (name, sys) # ys) c pid w =
           (Inl err, w2, l1 @ CallApply name # map IO l2) \<and>
         applied (l1 @ CallApply name # map IO l2) = map fst xs @ [name]"
proof -
  from SetResources_loop_applied [OF assms(2)] have "applied l1 = map fst xs"
    by simp
  then show ?thesis
    using assms by (simp add: SetResources_def SetResources_loop_append applied_append applied_IO)
qed


lemma SetResources_applied:
  assumes "SetResources E order c pid w = (r, w', evs)"
  shows "prefix (applied evs) (map fst order) \<and> ((\<exists>d. r = Inr d) \<longrightarrow> applied evs = map fst order)"
proof (cases "getCgroupData E c pid w")
  case (Inl e)
  with assms show ?thesis by (auto simp: SetResources_def)
next
  case (Inr d)
  obtain r0 w0 l0 where loop: "SetResources_loop order d w = (r0, w0, l0)"
    by (cases "SetResources_loop order d w")
  from SetResources_loop_applied [OF loop] assms Inr loop show ?thesis
    by (cases r0) (auto simp: SetResources_def)
qed

text \<open>
  C2, as amended. The registry is a Go map, and \<open>range\<close> over a map has no fixed order.
  For two calls with the same registered controllers: in each call the \<open>Apply\<close> steps
  follow the order in which that call's \<open>range\<close> yields the controllers (up to the first
  failure); when both calls succeed they call the same controllers, each once; and when
  \<open>range\<close> yields the same order from the same world the steps are the same. The order
  itself is not fixed by the program.
\<close>

theorem SetResources_applies_in_range_order:
  assumes "mset order1 = mset order2"
    and "SetResources E order1 c pid w = (r1, w1, evs1)"
    and "SetResources E order2 c pid w' = (r2, w2, evs2)"
  shows "prefix (applied evs1) (map fst order1) \<and> prefix (applied evs2) (map fst order2) \<and>
         ((\<exists>d. r1 = Inr d) \<and> (\<exists>d. r2 = Inr d) \<longrightarrow>
            applied evs1 = map fst order1 \<and> applied evs2 = map fst order2 \<and>
            mset (applied evs1) = mset (applied evs2)) \<and>
         (order1 = order2 \<and> w = w' \<longrightarrow> evs1 = evs2)"
proof -
  from assms(1) have "mset (map fst order1) = mset (map fst order2)"
    by (metis mset_map)
  with SetResources_applied [OF assms(2)] SetResources_applied [OF assms(3)] assms(2,3)
  show ?thesis by auto
qed

lemma run_mcs:
  "SetResources E_example (supportedSubsystems (ctl_ok ''m'') (ctl_ok ''c'') (ctl_ok ''s''))
     c_unset 42 w_masks =
   (Inr \<lparr>data_c = c_unset, data_pid = 42\<rparr>,
    upd (upd (upd w_masks [''cg'', ''m''] ''1'') [''cg'', ''c''] ''1'') [''cg'', ''s''] ''1'',
    [CallApply ''memory'', IO (EvWrite [''cg'', ''m''] ''1''),
     CallApply ''cpu'', IO (EvWrite [''cg'', ''c''] ''1''),
     CallApply ''cpuset'', IO (EvWrite [''cg'', ''s''] ''1'')])"
  by (simp add: SetResources_def supportedSubsystems_def E_example_def ctl_ok_def
      writeFile_def ioutil_WriteFile_def filepath_Join_def blocked_def lookup_def
      is_file_def upd_def w_masks_def)

lemma run_cms:
  "SetResources E_example
     [(''cpu'', ctl_ok ''c''), (''memory'', ctl_ok ''m''), (''cpuset'', ctl_ok ''s'')]
     c_unset 42 w_masks =
   (Inr \<lparr>data_c = c_unset, data_pid = 42\<rparr>,
    upd (upd (upd w_masks [''cg'', ''c''] ''1'') [''cg'', ''m''] ''1'') [''cg'', ''s''] ''1'',
    [CallApply ''cpu'', IO (EvWrite [''cg'', ''c''] ''1''),
     CallApply ''memory'', IO (EvWrite [''cg'', ''m''] ''1''),
     CallApply ''cpuset'', IO (EvWrite [''cg'', ''s''] ''1'')])"
  by (simp add: SetResources_def E_example_def ctl_ok_def
      writeFile_def ioutil_WriteFile_def filepath_Join_def blocked_def lookup_def
      is_file_def upd_def w_masks_def)

lemma same_registered_set:
  "mset (supportedSubsystems (ctl_ok ''m'') (ctl_ok ''c'') (ctl_ok ''s'')) =
   mset [(''cpu'', ctl_ok ''c''), (''memory'', ctl_ok ''m''), (''cpuset'', ctl_ok ''s'')]"
  by (simp add: supportedSubsystems_def)

text \<open>
  C2 as stated fails: two calls with the same three registered controllers, on the same
  world, whose \<open>range\<close> yields memory, cpu, cpuset in one and cpu, memory, cpuset in the
  other, call \<open>Apply\<close> in different orders.
\<close>

theorem SetResources_order_counterexample:
  "mset (supportedSubsystems (ctl_ok ''m'') (ctl_ok ''c'') (ctl_ok ''s'')) =
   mset [(''cpu'', ctl_ok ''c''), (''memory'', ctl_ok ''m''), (''cpuset'', ctl_ok ''s'')] \<and>
   applied (snd (snd (SetResources E_example
      (supportedSubsystems (ctl_ok ''m'') (ctl_ok ''c'') (ctl_ok ''s'')) c_unset 42 w_masks)))
   \<noteq> applied (snd (snd (SetResources E_example
      [(''cpu'', ctl_ok ''c''), (''memory'', ctl_ok ''m''), (''cpuset'', ctl_ok ''s'')]
      c_unset 42 w_masks)))"
  unfolding run_mcs run_cms using same_registered_set by simp

theorem SetResources_applies_in_range_order_witness:
  "applied [CallApply ''memory'', IO (EvWrite [''cg'', ''m''] ''1''),
     CallApply ''cpu'', IO (EvWrite [''cg'', ''c''] ''1''),
     CallApply ''cpuset'', IO (EvWrite [''cg'', ''s''] ''1'')] = [''memory'', ''cpu'', ''cpuset''] \<and>
   mset [''memory'', ''cpu'', ''cpuset''] =
   mset (applied [CallApply ''cpu'', IO (EvWrite [''cg'', ''c''] ''1''),
     CallApply ''memory'', IO (EvWrite [''cg'', ''m''] ''1''),
     CallApply ''cpuset'', IO (EvWrite [''cg'', ''s''] ''1'')])"
  using SetResources_applies_in_range_order [OF same_registered_set run_mcs run_cms]
  by (simp add: supportedSubsystems_def)

lemma run_fail:
  "SetResources_loop [(''memory'', ctl_ok ''m'')] \<lparr>data_c = c_unset, data_pid = 42\<rparr> w_masks =
     (Inr (), upd w_masks [''cg'', ''m''] ''1'',
      [CallApply ''memory'', IO (EvWrite [''cg'', ''m''] ''1'')])"
  by (simp add: ctl_ok_def writeFile_def ioutil_WriteFile_def filepath_Join_def blocked_def
      lookup_def is_file_def upd_def w_masks_def)

theorem SetResources_stops_at_first_failure_witness:
  "SetResources E_example
     [(''memory'', ctl_ok ''m''), (''cpu'', ctl_fail), (''cpuset'', ctl_ok ''s'')]
     c_unset 42 w_masks =
   (Inl (OtherError ''apply failed''), upd w_masks [''cg'', ''m''] ''1'',
    [CallApply ''memory'', IO (EvWrite [''cg'', ''m''] ''1''), CallApply ''cpu'']) \<and>
   nodes w_masks [''cg'', ''m''] = None \<and>
   nodes (upd w_masks [''cg'', ''m''] ''1'') [''cg'', ''m''] = Some (File ''1'')"
proof -
  have gd: "getCgroupData E_example c_unset 42 w_masks = Inr \<lparr>data_c = c_unset, data_pid = 42\<rparr>"
    by (simp add: E_example_def)
  have ap: "Apply ctl_fail \<lparr>data_c = c_unset, data_pid = 42\<rparr> (upd w_masks [''cg'', ''m''] ''1'') =
     (Inl (OtherError ''apply failed''), upd w_masks [''cg'', ''m''] ''1'', [])"
    by (simp add: ctl_fail_def)
  from SetResources_stops_at_first_failure [OF gd run_fail ap, of "''cpu''" "[(''cpuset'', ctl_ok ''s'')]"]
  show ?thesis
    by (simp add: upd_def w_masks_def)
qed

section \<open>GetAllStats\<close>

lemma GetAllStats_loop_append:
  "GetAllStats_loop E (xs @ ys) d stats w =
     (case GetAllStats_loop E xs d stats w of
        (Inl e, w1, l1) \<Rightarrow> (Inl e, w1, l1)
      | (Inr stats1, w1, l1) \<Rightarrow>
          (case GetAllStats_loop E ys d stats1 w1 of (r, w2, l2) \<Rightarrow> (r, w2, l1 @ l2)))"
  by (induction xs arbitrary: w stats) (auto split: prod.splits sum.splits)

lemma well_sequenced_IO: "well_sequenced prev (map IO l @ es) = well_sequenced prev es"
  by (induction l) auto

lemma GetAllStats_loop_sequenced:
  assumes "GetAllStats_loop E order d stats w = (r, w', evs)"
  shows "well_sequenced prev evs"
  using assms
proof (induction order arbitrary: w stats r w' evs prev)
  case Nil
  then show ?case by simp
next
  case (Cons a order)
  obtain name sys where a: "a = (name, sys)" by (cases a)
  obtain r1 w1 l1 where ap: "Apply sys d w = (r1, w1, l1)"
    by (cases "Apply sys d w")
  show ?case
  proof (cases r1)
    case (Inl e)
    with Cons.prems a ap show ?thesis
      using well_sequenced_IO [of _ l1 "[]"] by auto
  next
    case r1: (Inr u)
    show ?thesis
    proof (cases "data_path E d name w1")
      case (Inl err)
      obtain r3 w3 l3 where rest: "GetAllStats_loop E order d stats w1 = (r3, w3, l3)"
        by (cases "GetAllStats_loop E order d stats w1")
      from Cons.IH [OF rest] Cons.prems a ap r1 Inl rest show ?thesis
        by (auto simp: well_sequenced_IO split: if_splits)
    next
      case (Inr p)
      obtain r2 w2 l2 where gs: "GetStats sys p stats w1 = (r2, w2, l2)"
        by (cases "GetStats sys p stats w1")
      show ?thesis
      proof (cases r2)
        case (Inl e)
        with Cons.prems a ap r1 Inr gs show ?thesis
          using well_sequenced_IO [of _ l2 "[]"] by (auto simp: well_sequenced_IO)
      next
        case r2: (Inr stats')
        obtain r3 w3 l3 where rest: "GetAllStats_loop E order d stats' w2 = (r3, w3, l3)"
          by (cases "GetAllStats_loop E order d stats' w2")
        from Cons.IH [OF rest] Cons.prems a ap r1 Inr gs r2 rest show ?thesis
          by (auto simp: well_sequenced_IO)
      qed
    qed
  qed
qed

lemma GetAllStats_loop_applied:
  assumes "GetAllStats_loop E order d stats w = (Inr stats', w', evs)"
  shows "applied evs = map fst order"
  using assms
proof (induction order arbitrary: w stats evs)
  case Nil
  then show ?case by simp
next
  case (Cons a order)
  obtain name sys where a: "a = (name, sys)" by (cases a)
  from Cons.prems a show ?case
    by (auto simp: applied_append applied_IO dest!: Cons.IH
        split: prod.splits sum.splits if_splits)
qed


text \<open>
  C7. For a registered controller at any place in the loop of \<open>GetAllStats\<close> (the
  controllers before it went through, its own \<open>Apply\<close> succeeded): when resolving its
  directory fails with a \<open>NotFoundError\<close>, the loop goes on with the controllers after
  it on unchanged stats, and if it was the last one the call succeeds; when resolving
  fails with any other error, or reading its stats fails, the whole call returns that
  error.
\<close>

theorem GetAllStats_skips_only_NotFound:
  assumes "getCgroupData E c pid w = Inr d"
    and "GetAllStats_loop E xs d NewStats w = (Inr stats1, w1, l1)"
    and "Apply sys d w1 = (Inr (), w2, l2)"
  shows "(\<forall>err. data_path E d name w2 = Inl err \<and> cgroups_IsNotFound err \<longrightarrow>
            GetAllStats E NewStats (xs @ (name, sys) # ys) c pid w =
              (case GetAllStats_loop E ys d stats1 w2 of
                 (r, w3, l3) \<Rightarrow> (r, w3, l1 @ CallApply name # map IO l2 @ CallPath name # l3)) \<and>
            GetAllStats E NewStats (xs @ [(name, sys)]) c pid w =
              (Inr stats1, w2, l1 @ CallApply name # map IO l2 @ [CallPath name])) \<and>
         (\<forall>err. data_path E d name w2 = Inl err \<and> \<not> cgroups_IsNotFound err \<longrightarrow>
            GetAllStats E NewStats (xs @ (name, sys) # ys) c pid w =
              (Inl err, w2, l1 @ CallApply name # map IO l2 @ [CallPath name])) \<and>
         (\<forall>p err w3 l3. data_path E d name w2 = Inr p \<and>
              GetStats sys p stats1 w2 = (Inl err, w3, l3) \<longrightarrow>
            GetAllStats E NewStats (xs @ (name, sys) # ys) c pid w =
              (Inl err, w3, l1 @ CallApply name # map IO l2 @ CallPath name #
                              CallGetStats name p # map IO l3))"
  using assms
  by (auto simp: GetAllStats_def GetAllStats_loop_append split: prod.splits)

text \<open>
  C8. In every run of \<open>GetAllStats\<close> a controller's path is resolved only right after
  that controller's \<open>Apply\<close> was called, and its stats are read only right after its path
  was resolved; a run that succeeds has called the \<open>Apply\<close> of every registered
  controller, in the order of the loop, and the world it returns is the one those calls
  left; and if the \<open>Apply\<close> of a controller fails, the call returns that error.
\<close>

theorem GetAllStats_applies_first:
  assumes "GetAllStats E NewStats order c pid w = (r, w', evs)"
  shows "well_sequenced None evs \<and>
         ((\<exists>stats. r = Inr stats) \<longrightarrow> applied evs = map fst order) \<and>
         (\<forall>d xs name sys ys stats1 w1 l1 err w2 l2.
            getCgroupData E c pid w = Inr d \<and> order = xs @ (name, sys) # ys \<and>
            GetAllStats_loop E xs d NewStats w = (Inr stats1, w1, l1) \<and>
            Apply sys d w1 = (Inl err, w2, l2) \<longrightarrow>
            r = Inl err \<and> w' = w2 \<and> evs = l1 @ CallApply name # map IO l2)"
proof (cases "getCgroupData E c pid w")
  case (Inl e)
  with assms show ?thesis by (auto simp: GetAllStats_def)
next
  case (Inr d)
  with assms have loop: "GetAllStats_loop E order d NewStats w = (r, w', evs)"
    by (simp add: GetAllStats_def)
  have "well_sequenced None evs"
    using loop by (rule GetAllStats_loop_sequenced)
  moreover have "(\<exists>stats. r = Inr stats) \<longrightarrow> applied evs = map fst order"
    using loop by (auto dest: GetAllStats_loop_applied)
  moreover have "\<forall>d xs name sys ys stats1 w1 l1 err w2 l2.
            getCgroupData E c pid w = Inr d \<and> order = xs @ (name, sys) # ys \<and>
            GetAllStats_loop E xs d NewStats w = (Inr stats1, w1, l1) \<and>
            Apply sys d w1 = (Inl err, w2, l2) \<longrightarrow>
            r = Inl err \<and> w' = w2 \<and> evs = l1 @ CallApply name # map IO l2"
    using loop Inr by (auto simp: GetAllStats_loop_append)
  ultimately show ?thesis by blast
qed

lemma stats_run_skip:
  "GetAllStats E_example [] [(''cpuset'', ctl_ok ''s'')] c_unset 42 w_stats =
     (Inr [], upd w_stats [''cg'', ''s''] ''1'',
      [CallApply ''cpuset'', IO (EvWrite [''cg'', ''s''] ''1''), CallPath ''cpuset''])"
  by (simp add: GetAllStats_def E_example_def ctl_ok_def c_unset_def cgroups_IsNotFound_def
      writeFile_def ioutil_WriteFile_def filepath_Join_def blocked_def lookup_def
      is_file_def upd_def w_stats_def)

theorem GetAllStats_skips_only_NotFound_witness:
  "data_path E_example \<lparr>data_c = c_unset, data_pid = 42\<rparr> ''cpuset''
     (upd w_stats [''cg'', ''s''] ''1'') = Inl (NotFoundError ''cpuset'') \<and>
   cgroups_IsNotFound (NotFoundError ''cpuset'') \<and>
   GetAllStats E_example [] [(''cpuset'', ctl_ok ''s'')] c_unset 42 w_stats =
     (Inr [], upd w_stats [''cg'', ''s''] ''1'',
      [CallApply ''cpuset'', IO (EvWrite [''cg'', ''s''] ''1''), CallPath ''cpuset''])"
proof -
  let ?d = "\<lparr>data_c = c_unset, data_pid = 42\<rparr>"
  have gd: "getCgroupData E_example c_unset 42 w_stats = Inr ?d"
    by (simp add: E_example_def)
  have before: "GetAllStats_loop E_example [] ?d ([] :: string list) w_stats = (Inr [], w_stats, [])"
    by simp
  have ap: "Apply (ctl_ok ''s'') ?d w_stats =
              (Inr (), upd w_stats [''cg'', ''s''] ''1'', [EvWrite [''cg'', ''s''] ''1''])"
    by (simp add: ctl_ok_def writeFile_def ioutil_WriteFile_def filepath_Join_def blocked_def
        lookup_def is_file_def upd_def w_stats_def)
  have nf: "data_path E_example ?d ''cpuset'' (upd w_stats [''cg'', ''s''] ''1'') =
              Inl (NotFoundError ''cpuset'')"
    by (simp add: E_example_def c_unset_def lookup_def upd_def w_stats_def)
  have is_nf: "cgroups_IsNotFound (NotFoundError ''cpuset'')"
    by (simp add: cgroups_IsNotFound_def)
  from GetAllStats_skips_only_NotFound [OF gd before ap, of "''cpuset''" "[]"] nf is_nf
  show ?thesis
    by simp
qed

lemma stats_run:
  "GetAllStats E_example [] [(''memory'', ctl_ok ''m'')] c_unset 42 w_stats =
     (Inr [''/cg/memory/c1''], upd w_stats [''cg'', ''m''] ''1'',
      [CallApply ''memory'', IO (EvWrite [''cg'', ''m''] ''1''), CallPath ''memory'',
       CallGetStats ''memory'' [''cg'', ''memory'', ''c1'']])"
  by (simp add: GetAllStats_def E_example_def ctl_ok_def c_unset_def cgroups_IsNotFound_def
      writeFile_def ioutil_WriteFile_def filepath_Join_def blocked_def lookup_def io_return_def
      is_file_def upd_def w_stats_def path_string_def)

theorem GetAllStats_applies_first_witness:
  "GetAllStats E_example [] [(''memory'', ctl_ok ''m'')] c_unset 42 w_stats =
     (Inr [''/cg/memory/c1''], upd w_stats [''cg'', ''m''] ''1'',
      [CallApply ''memory'', IO (EvWrite [''cg'', ''m''] ''1''), CallPath ''memory'',
       CallGetStats ''memory'' [''cg'', ''memory'', ''c1'']]) \<and>
   well_sequenced None
      [CallApply ''memory'', IO (EvWrite [''cg'', ''m''] ''1''), CallPath ''memory'',
       CallGetStats ''memory'' [''cg'', ''memory'', ''c1'']] \<and>
   applied [CallApply ''memory'', IO (EvWrite [''cg'', ''m''] ''1''), CallPath ''memory'',
       CallGetStats ''memory'' [''cg'', ''memory'', ''c1'']] = [''memory''] \<and>
   nodes w_stats [''cg'', ''m''] = None \<and>
   nodes (upd w_stats [''cg'', ''m''] ''1'') [''cg'', ''m''] = Some (File ''1'')"
  using GetAllStats_applies_first [OF stats_run] stats_run
  by (simp add: upd_def w_stats_def)

section \<open>Direct access to one control file\<close>

lemma findGroup_in_Inr:
  assumes "findGroup_in groups subsystem = Inr g"
  shows "\<exists>files. (g, files) \<in> set groups \<and> subsystem \<in> set files"
  using assms by (induction groups) (auto split: if_splits)

lemma findGroup_in_Inl:
  assumes "findGroup_in groups subsystem = Inl err"
  shows "err = ErrCanNotAccess \<and> (\<forall>(g, files) \<in> set groups. subsystem \<notin> set files)"
  using assms by (induction groups) (auto split: if_splits)

lemma AccessaibleSubsystems_disjoint:
  assumes "(g, files) \<in> set AccessaibleSubsystems" and "subsystem \<in> set files"
    and "(g', files') \<in> set AccessaibleSubsystems" and "subsystem \<in> set files'"
  shows "g = g'"
  using assms by (auto simp: AccessaibleSubsystems_def)

text \<open>
  The group \<open>findGroup\<close> finds does not depend on the order in which the map is ranged
  over.
\<close>

lemma findGroup_any_order:
  assumes "set groups = set AccessaibleSubsystems"
  shows "findGroup_in groups subsystem = findGroup subsystem"
proof (cases "findGroup_in groups subsystem")
  case (Inl err)
  note a = findGroup_in_Inl [OF Inl]
  show ?thesis
  proof (cases "findGroup subsystem")
    case (Inl err')
    with a findGroup_in_Inl [of AccessaibleSubsystems subsystem err'] \<open>findGroup_in groups subsystem = Inl err\<close>
    show ?thesis by (simp add: findGroup_def)
  next
    case (Inr g)
    then obtain files where "(g, files) \<in> set AccessaibleSubsystems" "subsystem \<in> set files"
      using findGroup_in_Inr [of AccessaibleSubsystems subsystem g] by (auto simp: findGroup_def)
    with a assms show ?thesis by auto
  qed
next
  case (Inr g)
  from findGroup_in_Inr [OF Inr] assms obtain files where
    g: "(g, files) \<in> set AccessaibleSubsystems" "subsystem \<in> set files"
    by auto
  show ?thesis
  proof (cases "findGroup subsystem")
    case (Inl err')
    with findGroup_in_Inl [of AccessaibleSubsystems subsystem err'] g show ?thesis
      by (auto simp: findGroup_def)
  next
    case r: (Inr g')
    then obtain files' where "(g', files') \<in> set AccessaibleSubsystems" "subsystem \<in> set files'"
      using findGroup_in_Inr [of AccessaibleSubsystems subsystem g'] by (auto simp: findGroup_def)
    with g have "g = g'" by (auto intro: AccessaibleSubsystems_disjoint)
    with Inr r show ?thesis by simp
  qed
qed

lemma findGroup_in_unlisted:
  assumes "subsystem \<notin> set (concat (map snd groups))"
  shows "findGroup_in groups subsystem = Inl ErrCanNotAccess"
  using assms by (induction groups) auto

lemma os_Stat_result:
  "os_Stat p w = (Inr (), w, [EvStat p]) \<or> (\<exists>err. os_Stat p w = (Inl err, w, [EvStat p]))"
  by (simp add: os_Stat_def split: option.splits)

lemma getPath_unlisted:
  assumes "subsystem \<notin> set (concat (map snd AccessaibleSubsystems))"
  shows "getPath E ident driver subsystem w =
     (case FindCgroupMountpoint E ''cpu'' w of
        Inl e \<Rightarrow> (Inl e, w, [])
      | Inr mnt \<Rightarrow>
          (Inl (if fst (os_Stat (filepath_Dir mnt) w) = Inr () then ErrCanNotAccess
                else Errorf ''cgroups fs not found''),
           w, [EvStat (filepath_Dir mnt)]))"
proof (cases "FindCgroupMountpoint E ''cpu'' w")
  case (Inl err)
  then show ?thesis by (simp add: getPath_def)
next
  case (Inr mnt)
  from findGroup_in_unlisted [OF assms] have fg: "findGroup subsystem = Inl ErrCanNotAccess"
    by (simp add: findGroup_def)
  from os_Stat_result [of "filepath_Dir mnt" w] show ?thesis
  proof (elim disjE exE)
    assume "os_Stat (filepath_Dir mnt) w = (Inr (), w, [EvStat (filepath_Dir mnt)])"
    with Inr fg show ?thesis by (simp add: getPath_def)
  next
    fix err
    assume "os_Stat (filepath_Dir mnt) w = (Inl err, w, [EvStat (filepath_Dir mnt)])"
    with Inr show ?thesis by (simp add: getPath_def)
  qed
qed

lemma fs_Set_getPath:
  "getPath E ident driver subsystem w = (Inl err, w1, l1) \<Longrightarrow>
     fs_Set E ident driver subsystem v w = (Inl err, w1, l1)"
  "getPath E ident driver subsystem w = (Inr p, w1, l1) \<Longrightarrow>
     snd (snd (fs_Set E ident driver subsystem v w)) = l1 @ [EvWrite p v]"
  by (auto simp: fs_Set_def io_bind_def ioutil_WriteFile_def)

lemma fs_Get_getPath:
  "getPath E ident driver subsystem w = (Inl err, w1, l1) \<Longrightarrow>
     fs_Get E ident driver subsystem w = (Inl err, w1, l1)"
  "getPath E ident driver subsystem w = (Inr p, w1, l1) \<Longrightarrow>
     snd (snd (fs_Get E ident driver subsystem w)) = l1 @ [EvRead p]"
  by (auto simp: fs_Get_def io_bind_def io_return_def ioutil_ReadFile_def
      split: option.splits node.splits)

text \<open>
  A listed name is resolved below the group's directory; slashes and \<open>..\<close> inside the
  identifier are cleaned away by \<open>path.Join\<close>, so such an identifier reaches another
  workload's file.
\<close>

lemma path_elem_examples:
  "path_elem ''c1'' = [''c1'']" "path_elem '''' = ['''']"
  "path_elem ''c1/../c2'' = [''c1'', ''..'', ''c2'']"
  "path_elem ''cpu'' = [''cpu'']" "path_elem ''docker'' = [''docker'']"
  "path_elem ''cpu.shares'' = [''cpu.shares'']"
  by simp_all

lemma getPath_listed_example:
  "getPath E_example ''c1'' ''docker'' ''cpu.shares'' w_access =
     (Inr [''cg'', ''cpu'', ''docker'', ''c1'', ''cpu.shares''], w_access,
      [EvStat [''cg''], EvStat [''cg'', ''cpu'', ''docker'', ''c1'', ''cpu.shares'']])"
  by (simp add: getPath_def E_example_def os_Stat_def filepath_Dir_def blocked_def lookup_def
      is_file_def findGroup_def AccessaibleSubsystems_def path_Join_def path_Clean_def
      path_Clean_step_def Let_def w_access_def)

lemma getPath_cleans_example:
  "getPath E_example ''c1/../c2'' ''docker'' ''cpu.shares'' w_access =
     (Inr [''cg'', ''cpu'', ''docker'', ''c2'', ''cpu.shares''], w_access,
      [EvStat [''cg''], EvStat [''cg'', ''cpu'', ''docker'', ''c2'', ''cpu.shares'']])"
  by (simp add: getPath_def E_example_def os_Stat_def filepath_Dir_def blocked_def lookup_def
      is_file_def findGroup_def AccessaibleSubsystems_def path_Join_def path_Clean_def
      path_Clean_step_def Let_def w_access_def)

lemma fs_Get_listed_example:
  "fs_Get E_example ''c1'' ''docker'' ''cpu.shares'' w_access =
     (Inr ''1024'', w_access,
      [EvStat [''cg''], EvStat [''cg'', ''cpu'', ''docker'', ''c1'', ''cpu.shares''],
       EvRead [''cg'', ''cpu'', ''docker'', ''c1'', ''cpu.shares'']])"
  unfolding fs_Get_def io_bind_def getPath_listed_example
  by (simp add: ioutil_ReadFile_def io_return_def strings_TrimSuffix_def blocked_def lookup_def
      is_file_def suffix_def w_access_def)

text \<open>
  C9, as amended. For every file name that is not in the allow-list, \<open>Get\<close> and \<open>Set\<close>
  both fail, with the same error, the one \<open>getPath\<close> returns; the world is unchanged and
  no control file is read or written. Which error it is depends on the steps \<open>getPath\<close>
  takes before it looks at the name: when the lookup of the cpu mount point fails, that
  lookup's error is returned and nothing at all is done; otherwise the one thing done is
  the \<open>Stat\<close> of the mount point's parent directory, and the error is
  \<open>cgroups fs not found\<close> when that \<open>Stat\<close> fails and \<open>ErrCanNotAccess\<close> when it
  succeeds. For any name that \<open>getPath\<close> resolves, \<open>Get\<close> reads and \<open>Set\<close> writes
  exactly the path \<open>getPath\<close> returned.
\<close>

theorem direct_access_rejects_unlisted:
  assumes "subsystem \<notin> set (concat (map snd AccessaibleSubsystems))"
  shows "(\<exists>err evs.
            fs_Get E ident driver subsystem w = (Inl err, w, evs) \<and>
            fs_Set E ident driver subsystem v w = (Inl err, w, evs) \<and>
            getPath E ident driver subsystem w = (Inl err, w, evs) \<and>
            (\<forall>e \<in> set evs. \<exists>p. e = EvStat p) \<and>
            (\<forall>e. FindCgroupMountpoint E ''cpu'' w = Inl e \<longrightarrow> err = e \<and> evs = []) \<and>
            (\<forall>mnt. FindCgroupMountpoint E ''cpu'' w = Inr mnt \<and>
                   fst (os_Stat (filepath_Dir mnt) w) \<noteq> Inr () \<longrightarrow>
                   err = Errorf ''cgroups fs not found'' \<and> evs = [EvStat (filepath_Dir mnt)]) \<and>
            (\<forall>mnt. FindCgroupMountpoint E ''cpu'' w = Inr mnt \<and>
                   fst (os_Stat (filepath_Dir mnt) w) = Inr () \<longrightarrow>
                   err = ErrCanNotAccess \<and> evs = [EvStat (filepath_Dir mnt)])) \<and>
         (\<forall>s p w1 l1. getPath E ident driver s w = (Inr p, w1, l1) \<longrightarrow>
            snd (snd (fs_Get E ident driver s w)) = l1 @ [EvRead p] \<and>
            snd (snd (fs_Set E ident driver s v w)) = l1 @ [EvWrite p v])"
proof -
  define res where "res = getPath E ident driver subsystem w"
  define err where "err = (case fst res of Inl e \<Rightarrow> e | Inr _ \<Rightarrow> ErrCanNotAccess)"
  define evs where "evs = snd (snd res)"
  note gu = getPath_unlisted [OF assms, of E ident driver w, folded res_def]
  have gp: "getPath E ident driver subsystem w = (Inl err, w, evs)"
    unfolding res_def [symmetric] err_def evs_def gu by (simp split: sum.splits)
  have st: "\<forall>e \<in> set evs. \<exists>p. e = EvStat p"
    unfolding evs_def gu by (simp split: sum.splits)
  have a: "\<forall>e. FindCgroupMountpoint E ''cpu'' w = Inl e \<longrightarrow> err = e \<and> evs = []"
    unfolding err_def evs_def gu by simp
  have b: "\<forall>mnt. FindCgroupMountpoint E ''cpu'' w = Inr mnt \<and>
                 fst (os_Stat (filepath_Dir mnt) w) \<noteq> Inr () \<longrightarrow>
                 err = Errorf ''cgroups fs not found'' \<and> evs = [EvStat (filepath_Dir mnt)]"
    unfolding err_def evs_def gu by simp
  have c: "\<forall>mnt. FindCgroupMountpoint E ''cpu'' w = Inr mnt \<and>
                 fst (os_Stat (filepath_Dir mnt) w) = Inr () \<longrightarrow>
                 err = ErrCanNotAccess \<and> evs = [EvStat (filepath_Dir mnt)]"
    unfolding err_def evs_def gu by simp
  from gp have "fs_Get E ident driver subsystem w = (Inl err, w, evs)"
    and "fs_Set E ident driver subsystem v w = (Inl err, w, evs)"
    by (rule fs_Get_getPath(1), rule fs_Set_getPath(1))
  with gp st a b c have "\<exists>err evs.
            fs_Get E ident driver subsystem w = (Inl err, w, evs) \<and>
            fs_Set E ident driver subsystem v w = (Inl err, w, evs) \<and>
            getPath E ident driver subsystem w = (Inl err, w, evs) \<and>
            (\<forall>e \<in> set evs. \<exists>p. e = EvStat p) \<and>
            (\<forall>e. FindCgroupMountpoint E ''cpu'' w = Inl e \<longrightarrow> err = e \<and> evs = []) \<and>
            (\<forall>mnt. FindCgroupMountpoint E ''cpu'' w = Inr mnt \<and>
                   fst (os_Stat (filepath_Dir mnt) w) \<noteq> Inr () \<longrightarrow>
                   err = Errorf ''cgroups fs not found'' \<and> evs = [EvStat (filepath_Dir mnt)]) \<and>
            (\<forall>mnt. FindCgroupMountpoint E ''cpu'' w = Inr mnt \<and>
                   fst (os_Stat (filepath_Dir mnt) w) = Inr () \<longrightarrow>
                   err = ErrCanNotAccess \<and> evs = [EvStat (filepath_Dir mnt)])"
    by blast
  moreover have "\<forall>s p w1 l1. getPath E ident driver s w = (Inr p, w1, l1) \<longrightarrow>
            snd (snd (fs_Get E ident driver s w)) = l1 @ [EvRead p] \<and>
            snd (snd (fs_Set E ident driver s v w)) = l1 @ [EvWrite p v]"
    using fs_Get_getPath(2) fs_Set_getPath(2) by blast
  ultimately show ?thesis by blast
qed

lemma bogus_unlisted: "''bogus'' \<notin> set (concat (map snd AccessaibleSubsystems))"
  by (simp add: AccessaibleSubsystems_def)

lemma E_example_mount:
  "FindCgroupMountpoint E_example ''cpu'' w = Inr [''cg'', ''cpu'']"
  "FindCgroupMountpoint E_nomount ''cpu'' w = Inl (NotFoundError ''cpu'')"
  by (simp_all add: E_example_def E_nomount_def)

lemma w_masks_root: "fst (os_Stat (filepath_Dir [''cg'', ''cpu'']) w_masks) = Inr ()"
  by (simp add: os_Stat_def filepath_Dir_def blocked_def lookup_def is_file_def w_masks_def)

text \<open>
  On a system with the hierarchy at \<open>/cg\<close> the two helpers stop at the name, after the
  \<open>Stat\<close> of \<open>/cg\<close>; where the mount point lookup fails they return its error and have
  done nothing.
\<close>

theorem direct_access_rejects_unlisted_witness:
  "''bogus'' \<notin> set (concat (map snd AccessaibleSubsystems)) \<and>
   fs_Get E_example ''c1'' ''docker'' ''bogus'' w_masks =
     (Inl ErrCanNotAccess, w_masks, [EvStat [''cg'']]) \<and>
   fs_Set E_example ''c1'' ''docker'' ''bogus'' ''1'' w_masks =
     (Inl ErrCanNotAccess, w_masks, [EvStat [''cg'']]) \<and>
   fs_Get E_nomount ''c1'' ''docker'' ''bogus'' w_masks =
     (Inl (NotFoundError ''cpu''), w_masks, []) \<and>
   fs_Set E_nomount ''c1'' ''docker'' ''bogus'' ''1'' w_masks =
     (Inl (NotFoundError ''cpu''), w_masks, []) \<and>
   snd (snd (fs_Set E_example ''c1'' ''docker'' ''cpu.shares'' ''1'' w_access)) =
     [EvStat [''cg''], EvStat [''cg'', ''cpu'', ''docker'', ''c1'', ''cpu.shares''],
      EvWrite [''cg'', ''cpu'', ''docker'', ''c1'', ''cpu.shares''] ''1'']"
  using direct_access_rejects_unlisted [OF bogus_unlisted,
      of E_example "''c1''" "''docker''" w_masks "''1''"]
    direct_access_rejects_unlisted [OF bogus_unlisted,
      of E_nomount "''c1''" "''docker''" w_masks "''1''"]
    direct_access_rejects_unlisted [OF bogus_unlisted,
      of E_example "''c1''" "''docker''" w_access "''1''"]
    bogus_unlisted w_masks_root getPath_listed_example
  by (auto simp: E_example_mount filepath_Dir_def)

text \<open>
  C9 as stated fails where the hierarchy is not there: the mount point's parent does not
  exist, and for a name that is not listed both helpers return
  \<open>cgroups fs not found\<close>, not \<open>ErrCanNotAccess\<close>.
\<close>

theorem direct_access_counterexample:
  "''bogus'' \<notin> set (concat (map snd AccessaibleSubsystems)) \<and>
   fst (fs_Get E_example ''c1'' ''docker'' ''bogus'' w_empty) = Inl (Errorf ''cgroups fs not found'') \<and>
   fst (fs_Set E_example ''c1'' ''docker'' ''bogus'' ''1'' w_empty) = Inl (Errorf ''cgroups fs not found'') \<and>
   Errorf ''cgroups fs not found'' \<noteq> ErrCanNotAccess"
  by (simp add: fs_Get_def fs_Set_def io_bind_def getPath_def E_example_def os_Stat_def
      filepath_Dir_def blocked_def lookup_def is_file_def AccessaibleSubsystems_def w_empty_def)

section \<open>Saving the applied limits\<close>

text \<open>
  C10. When the container is running, \<open>SetResources\<close> succeeds and \<open>saveChanges\<close> is set,
  the container's stored configuration afterwards has the request's memory, cpu shares
  and cpuset exactly where the request's value is not zero or empty; a field whose
  request value is unset keeps its stored value, and nothing else of the container or of
  its configuration changes. The job succeeds exactly when writing to disk does.
\<close>

theorem ContainerLimit_saves_only_set_fields:
  assumes "Args j = [name]"
    and "daemon_Get D name = Inr container"
    and "IsRunning container"
    and "SetResources E order
           \<lparr>Name = ID container, Parent = driver_Parent D, Memory = env_memory j,
            CpuShares = env_cpuShares j, CpusetCpus = env_cpuset j\<rparr> (Pid container) w
         = (Inr d, w1, l1)"
    and "env_saveChanges j"
  shows "\<exists>st container'.
           ContainerLimit E order D j w = (st, Some container', w1, l1) \<and>
           cfg_Memory (Config container') =
             (if env_memory j = 0 then cfg_Memory (Config container) else env_memory j) \<and>
           cfg_CpuShares (Config container') =
             (if env_cpuShares j = 0 then cfg_CpuShares (Config container) else env_cpuShares j) \<and>
           cfg_Cpuset (Config container') =
             (if env_cpuset j = '''' then cfg_Cpuset (Config container) else env_cpuset j) \<and>
           config.more (Config container') = config.more (Config container) \<and>
           ID container' = ID container \<and> Pid container' = Pid container \<and>
           IsRunning container' = IsRunning container \<and>
           (st = StatusOK \<longleftrightarrow> ToDisk D container' = None)"
  using assms
  by (auto simp: ContainerLimit_def save_config_def Let_def split: option.splits)

lemma example_apply:
  "SetResources E_example [(''memory'', ctl_ok ''m'')]
     \<lparr>Name = ID container_example, Parent = driver_Parent daemon_example,
      Memory = env_memory job_example, CpuShares = env_cpuShares job_example,
      CpusetCpus = env_cpuset job_example\<rparr> (Pid container_example) w_masks =
   (Inr \<lparr>data_c = \<lparr>Name = ''c1'', Parent = ''docker'', Memory = 536870912, CpuShares = 0,
                    CpusetCpus = ''''\<rparr>, data_pid = 42\<rparr>,
    upd w_masks [''cg'', ''m''] ''1'',
    [CallApply ''memory'', IO (EvWrite [''cg'', ''m''] ''1'')])"
  by (simp add: SetResources_def E_example_def ctl_ok_def container_example_def
      daemon_example_def job_example_def
      writeFile_def ioutil_WriteFile_def filepath_Join_def blocked_def lookup_def
      is_file_def upd_def w_masks_def)

theorem ContainerLimit_saves_only_set_fields_witness:
  "ContainerLimit E_example [(''memory'', ctl_ok ''m'')] daemon_example job_example w_masks =
     (StatusOK,
      Some (container_example\<lparr>Config :=
         \<lparr>cfg_Memory = 536870912, cfg_CpuShares = 512, cfg_Cpuset = ''0-1''\<rparr>\<rparr>),
      upd w_masks [''cg'', ''m''] ''1'',
      [CallApply ''memory'', IO (EvWrite [''cg'', ''m''] ''1'')])"
proof -
  have a: "Args job_example = [''c1'']" and s: "env_saveChanges job_example"
    by (simp_all add: job_example_def)
  have g: "daemon_Get daemon_example ''c1'' = Inr container_example"
    by (simp add: daemon_example_def)
  have r: "IsRunning container_example"
    by (simp add: container_example_def)
  from ContainerLimit_saves_only_set_fields [OF a g r example_apply s]
  obtain st container' where
    "ContainerLimit E_example [(''memory'', ctl_ok ''m'')] daemon_example job_example w_masks =
       (st, Some container', upd w_masks [''cg'', ''m''] ''1'',
        [CallApply ''memory'', IO (EvWrite [''cg'', ''m''] ''1'')])"
    and "cfg_Memory (Config container') = 536870912"
    and "cfg_CpuShares (Config container') = 512"
    and "cfg_Cpuset (Config container') = ''0-1''"
    and "ID container' = ''c1''" and "Pid container' = 42" and "IsRunning container'"
    and "st = StatusOK"
    by (auto simp: job_example_def container_example_def daemon_example_def)
  then show ?thesis
    by (cases container', cases "Config container'") (simp add: container_example_def)
qed

section \<open>Bootstrapping the ancestors\<close>

lemma os_Stat_cases:
  obtains (ok) "os_Stat p w = (Inr (), w, [EvStat p])" "lookup w p \<noteq> None" "\<not> blocked w p"
  | (missing) "os_Stat p w = (Inl (PathError ENOENT p), w, [EvStat p])"
      "lookup w p = None" "\<not> blocked w p"
  | (notdir) "os_Stat p w = (Inl (PathError ENOTDIR p), w, [EvStat p])" "blocked w p"
proof (cases "blocked w p")
  case True
  then show ?thesis by (intro notdir) (simp_all add: os_Stat_def)
next
  case False
  then show ?thesis
    by (cases "lookup w p") (auto intro: ok missing simp: os_Stat_def)
qed

lemma ensureParent_ok:
  assumes "os_Stat (butlast current) w = (Inr (), w, l1)"
  shows "ensureParent current w =
     (case ensureParent_mkdir current (butlast current) w of (r, w3, l3) \<Rightarrow> (r, w3, l1 @ l3))"
  using assms by (subst ensureParent.simps, unfold filepath_Dir_def) simp

lemma ensureParent_notdir:
  assumes "os_Stat (butlast current) w = (Inl (PathError ENOTDIR p), w, l1)"
  shows "ensureParent current w = (Inl (PathError ENOTDIR p), w, l1)"
  using assms by (subst ensureParent.simps, unfold filepath_Dir_def) (simp add: os_IsNotExist_def)

lemma ensureParent_missing:
  assumes "os_Stat (butlast current) w = (Inl (PathError ENOENT p), w, l1)"
  shows "ensureParent current w =
     (case ensureParent (butlast current) w of
        (Inl e, w2, l2) \<Rightarrow> (Inl e, w2, l1 @ l2)
      | (Inr _, w2, l2) \<Rightarrow>
          (case ensureParent_mkdir current (butlast current) w2 of
             (r, w3, l3) \<Rightarrow> (r, w3, l1 @ l2 @ l3)))"
  using assms by (subst ensureParent.simps, unfold filepath_Dir_def) (simp add: os_IsNotExist_def)

lemma ensureParent_snoc_ok:
  assumes "os_Stat p w = (Inr (), w, l1)"
  shows "ensureParent (p @ [x]) w =
     (case ensureParent_mkdir (p @ [x]) p w of (r, w3, l3) \<Rightarrow> (r, w3, l1 @ l3))"
  using ensureParent_ok [of "p @ [x]" w l1] assms unfolding butlast_snoc by simp

lemma ensureParent_snoc_missing:
  assumes "os_Stat p w = (Inl (PathError ENOENT q), w, l1)"
  shows "ensureParent (p @ [x]) w =
     (case ensureParent p w of
        (Inl e, w2, l2) \<Rightarrow> (Inl e, w2, l1 @ l2)
      | (Inr _, w2, l2) \<Rightarrow>
          (case ensureParent_mkdir (p @ [x]) p w2 of
             (r, w3, l3) \<Rightarrow> (r, w3, l1 @ l2 @ l3)))"
  using ensureParent_missing [of "p @ [x]" w q l1] assms unfolding butlast_snoc by simp

lemma os_Mkdir_events:
  assumes "os_Mkdir p w = (r, w', l)"
  shows "\<forall>e \<in> set l. \<exists>q. e = EvMkdir q"
  using assms by (auto simp: os_Mkdir_def split: if_splits)

lemma MkdirAll_events:
  assumes "MkdirAll p w = (r, w', l)"
  shows "\<forall>e \<in> set l. \<exists>q. e = EvMkdir q"
  using assms
proof (induction p arbitrary: r w' l rule: rev_induct)
  case Nil
  then show ?case
    by (subst (asm) MkdirAll.simps)
       (auto simp: os_Stat_root lookup_def)
next
  case (snoc x p)
  obtain r1 w1 l1 where
    pre: "(if 1 < length (p @ [x]) then MkdirAll p w else (Inr (), w, [])) = (r1, w1, l1)"
    by (cases "if 1 < length (p @ [x]) then MkdirAll p w else (Inr (), w, [])")
  have ev1: "\<forall>e \<in> set l1. \<exists>q. e = EvMkdir q"
  proof (cases "1 < length (p @ [x])")
    case True
    with pre have "MkdirAll p w = (r1, w1, l1)" by simp
    then show ?thesis by (rule snoc.IH)
  next
    case False
    with pre show ?thesis by simp
  qed
  obtain r3 w3 l3 where mk: "os_Mkdir (p @ [x]) w1 = (r3, w3, l3)"
    by (cases "os_Mkdir (p @ [x]) w1")
  note ev3 = os_Mkdir_events [OF mk]
  from snoc.prems have "set l \<subseteq> set l1 \<union> set l3"
    by (subst (asm) MkdirAll.simps, unfold butlast_snoc pre)
       (auto simp: mk split: prod.splits sum.splits if_splits)
  with ev1 ev3 show ?case by blast
qed

lemma os_MkdirAll_events:
  assumes "os_MkdirAll p w = (r, w', l)"
  shows "\<forall>e \<in> set l. boot_event e"
proof -
  obtain r0 w0 l0 where m: "MkdirAll p w = (r0, w0, l0)"
    by (cases "MkdirAll p w")
  from MkdirAll_events [OF m] have "\<forall>e \<in> set l0. boot_event e"
    by (auto simp: boot_event_def)
  with m assms show ?thesis
    by (auto simp: os_MkdirAll_def boot_event_def)
qed

lemma in_take_reads:
  assumes "e \<in> set (take k [EvRead a, EvRead b, EvRead c, EvRead d])"
  shows "\<exists>p. e = EvRead p"
  using in_set_takeD [OF assms] by auto

lemma copyIfNeeded_events:
  assumes "copyIfNeeded current parent w = (r, w', l)"
  shows "\<forall>e \<in> set l. boot_event e"
  using copyIfNeeded_outcomes [of current parent w, unfolded assms]
  by (elim disjE exE conjE) (auto simp: boot_event_def dest!: in_take_reads)

lemma ensureParent_mkdir_events:
  assumes "ensureParent_mkdir current parent w = (r, w', l)"
  shows "\<forall>e \<in> set l. boot_event e"
proof -
  obtain r1 w1 l1 where m: "os_MkdirAll current w = (r1, w1, l1)"
    by (cases "os_MkdirAll current w")
  obtain r2 w2 l2 where c: "copyIfNeeded current parent w1 = (r2, w2, l2)"
    by (cases "copyIfNeeded current parent w1")
  from os_MkdirAll_events [OF m] copyIfNeeded_events [OF c] assms m c
  show ?thesis
    by (cases r1) (auto simp: ensureParent_mkdir_def split: if_splits)
qed

lemma ensureParent_events:
  assumes "ensureParent current w = (r, w', l)"
  shows "\<forall>e \<in> set l. boot_event e"
  using assms
proof (induction current arbitrary: w r w' l rule: rev_induct)
  case Nil
  have st: "os_Stat (butlast []) w = (Inr (), w, [EvStat []])"
    by (simp add: os_Stat_root)
  obtain r3 w3 l3 where m: "ensureParent_mkdir [] [] w = (r3, w3, l3)"
    by (cases "ensureParent_mkdir [] [] w")
  from ensureParent_mkdir_events [OF m] Nil m show ?case
    unfolding ensureParent_ok [OF st] by (auto simp: boot_event_def)
next
  case (snoc x p)
  show ?case
  proof (cases rule: os_Stat_cases [of p w])
    case ok
    obtain r3 w3 l3 where m: "ensureParent_mkdir (p @ [x]) p w = (r3, w3, l3)"
      by (cases "ensureParent_mkdir (p @ [x]) p w")
    from ok(1) have st: "os_Stat (butlast (p @ [x])) w = (Inr (), w, [EvStat p])"
      by simp
    from ensureParent_mkdir_events [OF m] snoc.prems m show ?thesis
      unfolding ensureParent_ok [OF st] by (auto simp: boot_event_def)
  next
    case notdir
    then have st: "os_Stat (butlast (p @ [x])) w = (Inl (PathError ENOTDIR p), w, [EvStat p])"
      by simp
    from snoc.prems show ?thesis
      unfolding ensureParent_notdir [OF st] by (auto simp: boot_event_def)
  next
    case missing
    then have st: "os_Stat (butlast (p @ [x])) w = (Inl (PathError ENOENT p), w, [EvStat p])"
      by simp
    obtain r2 w2 l2 where rec: "ensureParent p w = (r2, w2, l2)"
      by (cases "ensureParent p w")
    obtain r3 w3 l3 where m: "ensureParent_mkdir (p @ [x]) p w2 = (r3, w3, l3)"
      by (cases "ensureParent_mkdir (p @ [x]) p w2")
    from snoc.IH [OF rec] ensureParent_mkdir_events [OF m] snoc.prems rec m show ?thesis
      unfolding ensureParent_missing [OF st] by (cases r2) (auto simp: boot_event_def)
  qed
qed

text \<open>
  C6. In \<open>SetDir\<close> everything \<open>ensureParent\<close> does comes first, and it writes mask
  files only, never \<open>cgroup.procs\<close>. If \<open>ensureParent\<close> fails, \<open>SetDir\<close> stops there: no
  pid and no mask is written. If it succeeds, the pid is written to \<open>cgroup.procs\<close> next;
  if that write fails nothing more is done, and only if it succeeds is the requested mask
  written to \<open>cpuset.cpus\<close>, as the last step.
\<close>

theorem SetDir_write_order:
  assumes "ensureParent dir w = (r1, w1, l1)"
    and "SetDir dir v pid w = (r, w', evs)"
  shows "(\<forall>e \<in> set l1. boot_event e) \<and>
         (\<forall>x. EvWrite (dir @ [''cgroup.procs'']) x \<notin> set l1) \<and>
         ((\<exists>e. r1 = Inl e) \<longrightarrow> r = r1 \<and> w' = w1 \<and> evs = l1) \<and>
         (r1 = Inr () \<longrightarrow>
            ((\<exists>e. writeFile dir ''cgroup.procs'' (strconv_Itoa pid) w1 =
                    (Inl e, w1, [EvWrite (dir @ [''cgroup.procs'']) (strconv_Itoa pid)]) \<and>
                  r = Inl e \<and> w' = w1 \<and>
                  evs = l1 @ [EvWrite (dir @ [''cgroup.procs'']) (strconv_Itoa pid)]) \<or>
             (writeFile dir ''cgroup.procs'' (strconv_Itoa pid) w1 =
                (Inr (), upd w1 (dir @ [''cgroup.procs'']) (strconv_Itoa pid),
                 [EvWrite (dir @ [''cgroup.procs'']) (strconv_Itoa pid)]) \<and>
              nodes w' (dir @ [''cgroup.procs'']) = Some (File (strconv_Itoa pid)) \<and>
              evs = l1 @ [EvWrite (dir @ [''cgroup.procs'']) (strconv_Itoa pid),
                          EvWrite (dir @ [''cpuset.cpus'']) v])))"
    (is "?boot \<and> ?noprocs \<and> ?failed \<and> ?ok")
proof -
  have boot: ?boot
    using assms(1) by (rule ensureParent_events)
  have noprocs: ?noprocs
  proof
    fix x
    show "EvWrite (dir @ [''cgroup.procs'']) x \<notin> set l1"
    proof
      assume "EvWrite (dir @ [''cgroup.procs'']) x \<in> set l1"
      with boot have "boot_event (EvWrite (dir @ [''cgroup.procs'']) x)"
        by blast
      then show False by (simp add: boot_event_def)
    qed
  qed
  have failed: ?failed
    using assms by (auto simp: SetDir_def io_bind_def)
  have ok: ?ok
  proof
    assume r1: "r1 = Inr ()"
    let ?procs = "dir @ [''cgroup.procs'']"
    let ?pid = "strconv_Itoa pid"
    from WriteFile_result [of ?procs ?pid w1]
    show "(\<exists>e. writeFile dir ''cgroup.procs'' ?pid w1 = (Inl e, w1, [EvWrite ?procs ?pid]) \<and>
                  r = Inl e \<and> w' = w1 \<and> evs = l1 @ [EvWrite ?procs ?pid]) \<or>
          (writeFile dir ''cgroup.procs'' ?pid w1 =
                (Inr (), upd w1 ?procs ?pid, [EvWrite ?procs ?pid]) \<and>
              nodes w' ?procs = Some (File ?pid) \<and>
              evs = l1 @ [EvWrite ?procs ?pid, EvWrite (dir @ [''cpuset.cpus'']) v])"
    proof (elim disjE exE)
      fix e
      assume "ioutil_WriteFile ?procs ?pid w1 = (Inl e, w1, [EvWrite ?procs ?pid])"
      with assms r1 show ?thesis
        by (auto simp: SetDir_def io_bind_def writeFile_def filepath_Join_def)
    next
      assume wr: "ioutil_WriteFile ?procs ?pid w1 =
                    (Inr (), w1\<lparr>nodes := (nodes w1)(?procs \<mapsto> File ?pid)\<rparr>, [EvWrite ?procs ?pid])"
      from WriteFile_result [of "dir @ [''cpuset.cpus'']" v "upd w1 ?procs ?pid"]
      show ?thesis
        using assms r1 wr
        by (elim disjE exE)
           (auto simp: SetDir_def io_bind_def io_return_def writeFile_def filepath_Join_def upd_def)
    qed
  qed
  from boot noprocs failed ok show ?thesis by blast
qed

lemma Itoa_42: "strconv_Itoa 42 = ''42''"
  by code_simp

lemma w_boot_ensureParent:
  "ensureParent [''cg'', ''a''] w_boot =
     (Inr (),
      upd (upd (create_dir [''cg'', ''a''] w_boot) [''cg'', ''a'', ''cpuset.cpus''] ''0-3'')
          [''cg'', ''a'', ''cpuset.mems''] ''0'',
      [EvStat [''cg''], EvMkdirAll [''cg'', ''a''], EvMkdir [''cg'', ''a''],
       EvRead [''cg'', ''a'', ''cpuset.cpus''], EvRead [''cg'', ''a'', ''cpuset.mems''],
       EvRead [''cg'', ''cpuset.cpus''], EvRead [''cg'', ''cpuset.mems''],
       EvWrite [''cg'', ''a'', ''cpuset.cpus''] ''0-3'',
       EvWrite [''cg'', ''a'', ''cpuset.mems''] ''0''])"
  by (simp add: ensureParent.simps ensureParent_mkdir_def os_Stat_def os_MkdirAll_def MkdirAll.simps os_Mkdir_def
      create_dir_def copyIfNeeded_def getSubsystemSettings_def io_bind_def io_return_def
      ioutil_ReadFile_def ioutil_WriteFile_def writeFile_def filepath_Join_def
      filepath_Dir_def blocked_def lookup_def is_file_def isEmpty_def bytes_Trim_def
      upd_def w_boot_def)


lemma w_boot_SetDir:
  "SetDir [''cg'', ''a''] ''0-1'' 42 w_boot =
     (Inr (),
      upd (upd (upd (upd (create_dir [''cg'', ''a''] w_boot)
             [''cg'', ''a'', ''cpuset.cpus''] ''0-3'')
             [''cg'', ''a'', ''cpuset.mems''] ''0'')
             [''cg'', ''a'', ''cgroup.procs''] ''42'')
             [''cg'', ''a'', ''cpuset.cpus''] ''0-1'',
      [EvStat [''cg''], EvMkdirAll [''cg'', ''a''], EvMkdir [''cg'', ''a''],
       EvRead [''cg'', ''a'', ''cpuset.cpus''], EvRead [''cg'', ''a'', ''cpuset.mems''],
       EvRead [''cg'', ''cpuset.cpus''], EvRead [''cg'', ''cpuset.mems''],
       EvWrite [''cg'', ''a'', ''cpuset.cpus''] ''0-3'',
       EvWrite [''cg'', ''a'', ''cpuset.mems''] ''0'',
       EvWrite [''cg'', ''a'', ''cgroup.procs''] ''42'',
       EvWrite [''cg'', ''a'', ''cpuset.cpus''] ''0-1''])"
  unfolding SetDir_def io_bind_def w_boot_ensureParent Itoa_42
  by (simp add: io_return_def ioutil_WriteFile_def writeFile_def filepath_Join_def
      create_dir_def blocked_def lookup_def is_file_def upd_def w_boot_def)

theorem SetDir_write_order_witness:
  "SetDir [''cg'', ''a''] ''0-1'' 42 w_boot =
     (Inr (),
      upd (upd (upd (upd (create_dir [''cg'', ''a''] w_boot)
             [''cg'', ''a'', ''cpuset.cpus''] ''0-3'')
             [''cg'', ''a'', ''cpuset.mems''] ''0'')
             [''cg'', ''a'', ''cgroup.procs''] ''42'')
             [''cg'', ''a'', ''cpuset.cpus''] ''0-1'',
      [EvStat [''cg''], EvMkdirAll [''cg'', ''a''], EvMkdir [''cg'', ''a''],
       EvRead [''cg'', ''a'', ''cpuset.cpus''], EvRead [''cg'', ''a'', ''cpuset.mems''],
       EvRead [''cg'', ''cpuset.cpus''], EvRead [''cg'', ''cpuset.mems''],
       EvWrite [''cg'', ''a'', ''cpuset.cpus''] ''0-3'',
       EvWrite [''cg'', ''a'', ''cpuset.mems''] ''0'',
       EvWrite [''cg'', ''a'', ''cgroup.procs''] ''42'',
       EvWrite [''cg'', ''a'', ''cpuset.cpus''] ''0-1'']) \<and>
   fst (ensureParent [''cg'', ''a''] w_boot) = Inr () \<and>
   EvWrite ([''cg'', ''a''] @ [''cgroup.procs'']) ''42''
     \<notin> set (snd (snd (ensureParent [''cg'', ''a''] w_boot)))"
  using SetDir_write_order [OF w_boot_ensureParent w_boot_SetDir] w_boot_SetDir
  by (simp add: w_boot_ensureParent)

section \<open>Building the chain of directories\<close>

lemma chain_snoc: "chain root (ds @ [x]) = chain root ds @ [root @ ds @ [x]]"
  by (simp add: chain_def)

lemma chain_Nil: "chain root [] = []"
  by (simp add: chain_def)

lemma prefixes_chain: "prefixes (root @ ds) = prefixes root @ chain root ds"
  by (simp add: chain_def prefixes_append)

lemma in_chain_prefix:
  assumes "q \<in> set (chain root ds)"
  shows "prefix q (root @ ds)"
proof -
  from assms obtain x where x: "x \<in> set (tl (prefixes ds))" and q: "q = root @ x"
    by (auto simp: chain_def)
  from x have "x \<in> set (prefixes ds)"
    by (metis list.set_sel(2) prefixes_not_Nil)
  with q show ?thesis by simp
qed

lemma made_append: "made (xs @ ys) = made xs @ made ys"
  by (induction xs rule: made.induct) auto

lemma dir_chain_lookup:
  assumes "dir_chain w p"
  shows "lookup w p = Some Dir"
  using assms by (simp add: dir_chain_def list_all_iff)

lemma dir_chain_snoc: "dir_chain w (p @ [x]) \<longleftrightarrow> dir_chain w p \<and> lookup w (p @ [x]) = Some Dir"
  by (simp add: dir_chain_def)

lemma dir_chain_not_blocked:
  assumes "dir_chain w p"
  shows "\<not> blocked w p"
proof
  assume "blocked w p"
  then obtain q where "q \<in> set (butlast (prefixes p))" and "is_file (lookup w q)"
    by (auto simp: blocked_def list_ex_iff)
  moreover from this(1) have "q \<in> set (prefixes p)"
    by (rule in_set_butlastD)
  ultimately show False
    using assms by (auto simp: dir_chain_def list_all_iff is_file_def)
qed

lemma dir_chain_child_not_blocked:
  assumes "dir_chain w p"
  shows "\<not> blocked w (p @ [x])"
  using assms by (auto simp: blocked_def dir_chain_def list_all_iff list_ex_iff is_file_def)

lemma os_Stat_dir_chain:
  assumes "dir_chain w p"
  shows "os_Stat p w = (Inr (), w, [EvStat p])"
  using dir_chain_not_blocked [OF assms] dir_chain_lookup [OF assms]
  by (simp add: os_Stat_def)

lemma MkdirAll_dir:
  assumes "dir_chain w p"
  shows "MkdirAll p w = (Inr (), w, [])"
  using os_Stat_dir_chain [OF assms] dir_chain_lookup [OF assms]
  by (subst MkdirAll.simps) simp

lemma MkdirAll_child:
  assumes "dir_chain w p"
  shows "MkdirAll (p @ [x]) w =
     (case lookup w (p @ [x]) of
        Some Dir \<Rightarrow> (Inr (), w, [])
      | Some (File c) \<Rightarrow> (Inl (PathError ENOTDIR (p @ [x])), w, [])
      | None \<Rightarrow> (Inr (), create_dir (p @ [x]) w, [EvMkdir (p @ [x])]))"
proof (cases "lookup w (p @ [x])")
  case None
  then have st: "os_Stat (p @ [x]) w = (Inl (PathError ENOENT (p @ [x])), w, [EvStat (p @ [x])])"
    using dir_chain_child_not_blocked [OF assms, of x] by (simp add: os_Stat_def)
  have mk: "os_Mkdir (p @ [x]) w = (Inr (), create_dir (p @ [x]) w, [EvMkdir (p @ [x])])"
    using None dir_chain_child_not_blocked [OF assms, of x] dir_chain_lookup [OF assms]
    by (simp add: os_Mkdir_def)
  have pre: "(if 1 < length (p @ [x]) then MkdirAll p w else (Inr (), w, [])) = (Inr (), w, [])"
    by (simp add: MkdirAll_dir [OF assms])
  show ?thesis
    by (subst MkdirAll.simps, unfold st butlast_snoc pre) (simp add: None mk)
next
  case (Some n)
  then have st: "os_Stat (p @ [x]) w = (Inr (), w, [EvStat (p @ [x])])"
    using dir_chain_child_not_blocked [OF assms, of x] by (simp add: os_Stat_def)
  show ?thesis
    by (subst MkdirAll.simps, unfold st) (cases n; simp add: Some)
qed

lemma os_MkdirAll_child:
  assumes "dir_chain w p"
  shows "os_MkdirAll (p @ [x]) w =
     (case lookup w (p @ [x]) of
        Some Dir \<Rightarrow> (Inr (), w, [EvMkdirAll (p @ [x])])
      | Some (File c) \<Rightarrow> (Inl (PathError ENOTDIR (p @ [x])), w, [EvMkdirAll (p @ [x])])
      | None \<Rightarrow> (Inr (), create_dir (p @ [x]) w, [EvMkdirAll (p @ [x]), EvMkdir (p @ [x])]))"
  unfolding os_MkdirAll_def MkdirAll_child [OF assms]
  by (simp split: option.splits node.splits)

text \<open>
  Two failures of \<open>os.MkdirAll\<close>. A regular file on the way is reported as \<open>ENOTDIR\<close> on
  that file, and nothing is made. A directory whose name the kernel has just given to a
  control file of its new parent cannot be made: the parent stays, and the error is
  \<open>EEXIST\<close>.
\<close>

lemma os_MkdirAll_file_on_the_way:
  "os_MkdirAll [''cg'', ''cpuset.cpus'', ''a'', ''b''] w_boot =
     (Inl (PathError ENOTDIR [''cg'', ''cpuset.cpus'']), w_boot,
      [EvMkdirAll [''cg'', ''cpuset.cpus'', ''a'', ''b'']])"
  by (simp add: os_MkdirAll_def MkdirAll.simps os_Stat_def blocked_def lookup_def is_file_def
      w_boot_def)

lemma os_MkdirAll_name_taken:
  "os_MkdirAll [''cg'', ''a'', ''cpuset.cpus''] w_boot =
     (Inl (PathError EEXIST [''cg'', ''a'', ''cpuset.cpus'']), create_dir [''cg'', ''a''] w_boot,
      [EvMkdirAll [''cg'', ''a'', ''cpuset.cpus''], EvMkdir [''cg'', ''a'']])"
  by (simp add: os_MkdirAll_def MkdirAll.simps os_Mkdir_def os_Stat_def blocked_def lookup_def
      is_file_def create_dir_def w_boot_def)

lemma create_dir_fields [simp]:
  "fresh (create_dir c w) = fresh w" "rejects (create_dir c w) = rejects w"
  by (simp_all add: create_dir_def)

lemma create_dir_self: "nodes (create_dir c w) c = Some Dir"
  by (simp add: create_dir_def)

lemma create_dir_other:
  assumes "\<not> prefix c q"
  shows "nodes (create_dir c w) q = nodes w q"
proof -
  from assms have "q \<noteq> c" by auto
  moreover have "butlast q \<noteq> c" if "q \<noteq> []"
  proof
    assume "butlast q = c"
    with that have "q = c @ [last q]" by (metis append_butlast_last_id)
    with assms show False by (metis prefixI)
  qed
  ultimately show ?thesis by (auto simp: create_dir_def)
qed

lemma create_dir_changes:
  assumes "nodes (create_dir c w) q \<noteq> nodes w q"
  shows "(q = c \<and> nodes (create_dir c w) q = Some Dir) \<or>
         (q \<noteq> [] \<and> butlast q = c \<and> is_file (nodes (create_dir c w) q))"
  using assms by (auto simp: create_dir_def is_file_def split: if_splits option.splits)

lemma dir_chain_create_dir:
  assumes "dir_chain w p"
  shows "dir_chain (create_dir (p @ [x]) w) (p @ [x])"
proof -
  have "lookup (create_dir (p @ [x]) w) q = lookup w q" if "prefix q p" for q
  proof -
    from that have "\<not> prefix (p @ [x]) q"
      by (metis prefix_order.dual_order.trans prefix_snocD prefix_order.order_refl
          prefix_length_le length_append_singleton not_less_eq_eq)
    then show ?thesis
      by (simp add: lookup_def create_dir_other)
  qed
  with assms have "dir_chain (create_dir (p @ [x]) w) p"
    by (simp add: dir_chain_def list_all_iff)
  then show ?thesis
    by (simp add: dir_chain_snoc lookup_def create_dir_self)
qed

lemma made_none:
  assumes "\<forall>e \<in> set l. \<forall>q. e \<noteq> EvMkdir q"
  shows "made l = []"
  using assms by (induction l rule: made.induct) auto

lemma made_take_reads: "made (take k [EvRead a, EvRead b, EvRead c, EvRead d]) = []"
  by (rule made_none) (auto dest!: in_take_reads)

lemma copyIfNeeded_frame:
  assumes "copyIfNeeded current parent w = (r, w', l)"
  shows "fresh w' = fresh w \<and> rejects w' = rejects w \<and> made l = [] \<and>
         (\<forall>q. nodes w' q \<noteq> nodes w q \<longrightarrow>
            (q = current @ [''cpuset.cpus''] \<or> q = current @ [''cpuset.mems'']) \<and>
            is_file (nodes w' q))"
  using copyIfNeeded_outcomes [of current parent w, unfolded assms]
  by (elim disjE exE conjE)
     (simp_all add: upd_def is_file_def made_take_reads made_append)

lemma copyIfNeeded_success_masks:
  assumes "copyIfNeeded current parent w = (Inr (), w', l)"
    and "masks_set w parent"
  shows "masks_set w' current"
  using copyIfNeeded_outcomes [of current parent w, unfolded assms(1)] assms(2)
  by (elim disjE exE conjE) (auto simp: upd_def masks_set_def)

lemma masks_set_frame:
  assumes "masks_set w p"
    and "nodes w' (p @ [''cpuset.cpus'']) = nodes w (p @ [''cpuset.cpus''])"
    and "nodes w' (p @ [''cpuset.mems'']) = nodes w (p @ [''cpuset.mems''])"
  shows "masks_set w' p"
  using assms by (simp add: masks_set_def)

lemma dir_chain_frame:
  assumes "dir_chain w p"
    and "\<forall>q. prefix q p \<longrightarrow> nodes w' q = nodes w q"
  shows "dir_chain w' p"
  using assms by (auto simp: dir_chain_def list_all_iff lookup_def split: if_splits)

lemma masks_set_is_file:
  assumes "masks_set w p" and "f \<in> {''cpuset.cpus'', ''cpuset.mems''}"
  shows "is_file (nodes w (p @ [f]))"
  using assms by (auto simp: masks_set_def is_file_def split: option.splits node.splits)

text \<open>
  One step of the walk, under a parent that is there: the directory is made if it is
  missing, and its masks inherited.
\<close>

lemma ensureParent_mkdir_step:
  assumes chain: "dir_chain w p"
    and run: "ensureParent_mkdir (p @ [x]) p w = (r, w', l)"
  shows "made l = (if lookup w (p @ [x]) = None then [p @ [x]] else [])"
    and "fresh w' = fresh w \<and> rejects w' = rejects w"
    and "\<forall>q. nodes w' q \<noteq> nodes w q \<longrightarrow>
           (q = p @ [x] \<and> nodes w' q = Some Dir \<and> nodes w q = None) \<or>
           (q \<noteq> [] \<and> butlast q = p @ [x] \<and> is_file (nodes w' q))"
    and "r = Inr () \<Longrightarrow> dir_chain w' (p @ [x]) \<and> \<not> is_file (lookup w (p @ [x]))"
    and "r = Inr () \<Longrightarrow> masks_set w p \<Longrightarrow> masks_set w' (p @ [x]) \<and> masks_set w' p"
proof -
  let ?cur = "p @ [x]"
  have not_mask: "x \<notin> {''cpuset.cpus'', ''cpuset.mems''}"
    if "masks_set w p" and "\<not> is_file (lookup w ?cur)"
    using masks_set_is_file [OF that(1), of x] that(2) by (auto simp: lookup_def)
  have copy_fields: "made l2 = [] \<and> fresh w2 = fresh w1 \<and> rejects w2 = rejects w1"
    if c: "copyIfNeeded ?cur p w1 = (r2, w2, l2)" for w1 r2 w2 l2
    using copyIfNeeded_frame [OF c] by simp
  have copy_changes:
    "\<forall>q. nodes w2 q \<noteq> nodes w1 q \<longrightarrow> q \<noteq> [] \<and> butlast q = ?cur \<and> is_file (nodes w2 q)"
    if c: "copyIfNeeded ?cur p w1 = (r2, w2, l2)" for w1 r2 w2 l2
  proof (intro allI impI)
    fix q assume "nodes w2 q \<noteq> nodes w1 q"
    with copyIfNeeded_frame [OF c]
    have "(q = ?cur @ [''cpuset.cpus''] \<or> q = ?cur @ [''cpuset.mems'']) \<and>
                  is_file (nodes w2 q)"
      by blast
    then show "q \<noteq> [] \<and> butlast q = ?cur \<and> is_file (nodes w2 q)"
      by (auto simp: butlast_append)
  qed
  have copy_chain: "dir_chain w2 ?cur"
    if c: "copyIfNeeded ?cur p w1 = (r2, w2, l2)" and dc: "dir_chain w1 ?cur" for w1 r2 w2 l2
  proof (rule dir_chain_frame [OF dc], intro allI impI)
    fix q assume "prefix q ?cur"
    then have "length q \<le> length ?cur" by (rule prefix_length_le)
    then have "butlast q \<noteq> ?cur" by (cases q rule: rev_cases) auto
    with copy_changes [OF c] show "nodes w2 q = nodes w1 q" by blast
  qed
  have copy_masks: "masks_set w2 ?cur \<and> masks_set w2 p"
    if c: "copyIfNeeded ?cur p w1 = (r2, w2, l2)" and "r2 = Inr ()" and ms: "masks_set w1 p"
    for w1 r2 w2 l2
  proof
    from c that(2) ms show "masks_set w2 ?cur"
      by (auto intro: copyIfNeeded_success_masks)
    have "butlast (p @ [f]) \<noteq> ?cur" for f by simp
    with copy_changes [OF c] have "nodes w2 (p @ [f]) = nodes w1 (p @ [f])" for f by blast
    with ms show "masks_set w2 p" by (auto intro: masks_set_frame)
  qed
  note mk = os_MkdirAll_child [OF chain, of x]
  consider (absent) "lookup w ?cur = None" | (isdir) "lookup w ?cur = Some Dir"
    | (isfile) c where "lookup w ?cur = Some (File c)"
    by (cases "lookup w ?cur") (auto intro: node.exhaust)
  then have all: "made l = (if lookup w ?cur = None then [?cur] else []) \<and>
     (fresh w' = fresh w \<and> rejects w' = rejects w) \<and>
     (\<forall>q. nodes w' q \<noteq> nodes w q \<longrightarrow>
           (q = ?cur \<and> nodes w' q = Some Dir \<and> nodes w q = None) \<or>
           (q \<noteq> [] \<and> butlast q = ?cur \<and> is_file (nodes w' q))) \<and>
     (r = Inr () \<longrightarrow> dir_chain w' ?cur \<and> \<not> is_file (lookup w ?cur)) \<and>
     (r = Inr () \<longrightarrow> masks_set w p \<longrightarrow> masks_set w' ?cur \<and> masks_set w' p)"
    (is "?A \<and> ?B \<and> ?C \<and> ?D \<and> ?E")
  proof cases
    case isfile
    with mk run have eq: "r = Inl (PathError ENOTDIR ?cur)" "w' = w" "l = [EvMkdirAll ?cur]"
      by (simp_all add: ensureParent_mkdir_def os_IsExist_def)
    have A: ?A using eq isfile by simp
    have B: ?B using eq by simp
    have C: ?C using eq by simp
    have D: ?D using eq by simp
    have E: ?E using eq by simp
    show ?thesis
      by (rule conjI [OF A conjI [OF B conjI [OF C conjI [OF D E]]]])
  next
    case isdir
    with mk have m: "os_MkdirAll ?cur w = (Inr (), w, [EvMkdirAll ?cur])" by simp
    obtain r2 w2 l2 where c: "copyIfNeeded ?cur p w = (r2, w2, l2)"
      by (cases "copyIfNeeded ?cur p w")
    with run m have eq: "r = r2" "w' = w2" "l = [EvMkdirAll ?cur] @ l2"
      by (simp_all add: ensureParent_mkdir_def)
    have dc: "dir_chain w ?cur"
      using chain isdir by (simp add: dir_chain_snoc)
    have nf: "\<not> is_file (lookup w ?cur)"
      using isdir by (simp add: is_file_def)
    have A: ?A using copy_fields [OF c] eq isdir by (simp add: made_append)
    have B: ?B using copy_fields [OF c] eq by simp
    have C: ?C unfolding eq using copy_changes [OF c] by blast
    have D: ?D unfolding eq using copy_chain [OF c dc] nf by simp
    have E: ?E unfolding eq using copy_masks [OF c] by simp
    show ?thesis
      by (rule conjI [OF A conjI [OF B conjI [OF C conjI [OF D E]]]])
  next
    case absent
    let ?w1 = "create_dir ?cur w"
    from absent mk have m: "os_MkdirAll ?cur w = (Inr (), ?w1, [EvMkdirAll ?cur, EvMkdir ?cur])"
      by simp
    obtain r2 w2 l2 where c: "copyIfNeeded ?cur p ?w1 = (r2, w2, l2)"
      by (cases "copyIfNeeded ?cur p ?w1")
    with run m have eq: "r = r2" "w' = w2" "l = [EvMkdirAll ?cur, EvMkdir ?cur] @ l2"
      by (simp_all add: ensureParent_mkdir_def)
    have dc: "dir_chain ?w1 ?cur"
      using chain by (rule dir_chain_create_dir)
    have nf: "\<not> is_file (lookup w ?cur)"
      using absent by (simp add: is_file_def)
    have nn: "nodes w ?cur = None"
      using absent by (simp add: lookup_def)
    have ms: "masks_set ?w1 p" if "masks_set w p"
    proof (rule masks_set_frame [OF that])
      from not_mask [OF that nf]
      have x1: "x \<noteq> ''cpuset.cpus''" and x2: "x \<noteq> ''cpuset.mems''"
        by blast+
      from x1 have "\<not> prefix ?cur (p @ [''cpuset.cpus''])" by simp
      then show "nodes ?w1 (p @ [''cpuset.cpus'']) = nodes w (p @ [''cpuset.cpus''])"
        by (rule create_dir_other)
      from x2 have "\<not> prefix ?cur (p @ [''cpuset.mems''])" by simp
      then show "nodes ?w1 (p @ [''cpuset.mems'']) = nodes w (p @ [''cpuset.mems''])"
        by (rule create_dir_other)
    qed
    have ch: "(q = ?cur \<and> nodes w2 q = Some Dir \<and> nodes w q = None) \<or>
           (q \<noteq> [] \<and> butlast q = ?cur \<and> is_file (nodes w2 q))"
      if "nodes w2 q \<noteq> nodes w q" for q
    proof (cases "nodes w2 q = nodes ?w1 q")
      case False
      with copy_changes [OF c] show ?thesis by blast
    next
      case True
      with that have "nodes ?w1 q \<noteq> nodes w q" by simp
      from create_dir_changes [OF this] True nn show ?thesis by auto
    qed
    have A: ?A using copy_fields [OF c] eq absent by (simp add: made_append)
    have B: ?B using copy_fields [OF c] eq by simp
    have C: ?C unfolding eq using ch by blast
    have D: ?D unfolding eq using copy_chain [OF c dc] nf by simp
    have E: ?E unfolding eq using copy_masks [OF c] ms by simp
    show ?thesis
      by (rule conjI [OF A conjI [OF B conjI [OF C conjI [OF D E]]]])
  qed
  note c2 = all [THEN conjunct2]
  note c3 = c2 [THEN conjunct2]
  note c4 = c3 [THEN conjunct2]
  show "made l = (if lookup w (p @ [x]) = None then [p @ [x]] else [])"
    by (rule all [THEN conjunct1])
  show "fresh w' = fresh w \<and> rejects w' = rejects w"
    by (rule c2 [THEN conjunct1])
  show "\<forall>q. nodes w' q \<noteq> nodes w q \<longrightarrow>
           (q = p @ [x] \<and> nodes w' q = Some Dir \<and> nodes w q = None) \<or>
           (q \<noteq> [] \<and> butlast q = p @ [x] \<and> is_file (nodes w' q))"
    by (rule c3 [THEN conjunct1])
  show "r = Inr () \<Longrightarrow> dir_chain w' (p @ [x]) \<and> \<not> is_file (lookup w (p @ [x]))"
    using c4 [THEN conjunct1] by simp
  show "r = Inr () \<Longrightarrow> masks_set w p \<Longrightarrow> masks_set w' (p @ [x]) \<and> masks_set w' p"
    using c4 [THEN conjunct2] by simp
qed

lemma os_Stat_missing:
  assumes "lookup w p = None" and "\<not> blocked w p"
  shows "os_Stat p w = (Inl (PathError ENOENT p), w, [EvStat p])"
  using assms by (simp add: os_Stat_def)

lemma ReadFile_file:
  assumes "\<not> blocked w p" and "nodes w p = Some (File c)" and "p \<noteq> []"
  shows "ioutil_ReadFile p w = (Inr c, w, [EvRead p])"
  using assms by (simp add: ioutil_ReadFile_def lookup_def)

lemma gss_masks:
  assumes "dir_chain w d"
    and "nodes w (d @ [''cpuset.cpus'']) = Some (File c)"
    and "nodes w (d @ [''cpuset.mems'']) = Some (File m)"
  shows "getSubsystemSettings d w =
           (Inr (c, m), w, [EvRead (d @ [''cpuset.cpus'']), EvRead (d @ [''cpuset.mems''])])"
proof -
  note nb = dir_chain_child_not_blocked [OF assms(1)]
  have "ioutil_ReadFile (d @ [''cpuset.cpus'']) w = (Inr c, w, [EvRead (d @ [''cpuset.cpus''])])"
    using nb assms(2) by (intro ReadFile_file) simp_all
  moreover
  have "ioutil_ReadFile (d @ [''cpuset.mems'']) w = (Inr m, w, [EvRead (d @ [''cpuset.mems''])])"
    using nb assms(3) by (intro ReadFile_file) simp_all
  ultimately show ?thesis
    by (simp add: getSubsystemSettings_def io_bind_def io_return_def filepath_Join_def)
qed

lemma masks_setD:
  assumes "masks_set w p"
  shows "\<exists>c m. nodes w (p @ [''cpuset.cpus'']) = Some (File c) \<and> \<not> isEmpty c \<and>
               nodes w (p @ [''cpuset.mems'']) = Some (File m) \<and> \<not> isEmpty m"
  using assms unfolding masks_set_def
  by (cases "nodes w (p @ [''cpuset.cpus''])"; cases "nodes w (p @ [''cpuset.mems''])")
     (auto split: node.splits)

lemma masks_setE:
  assumes "masks_set w p"
  obtains c m where "nodes w (p @ [''cpuset.cpus'']) = Some (File c)" "\<not> isEmpty c"
    "nodes w (p @ [''cpuset.mems'']) = Some (File m)" "\<not> isEmpty m"
  using masks_setD [OF assms] by blast

text \<open>On a directory that is there and has its masks, the step changes nothing.\<close>

lemma copyIfNeeded_noop:
  assumes "dir_chain w current" and "dir_chain w parent"
    and "masks_set w current" and "masks_set w parent"
  shows "copyIfNeeded current parent w =
     (Inr (), w,
      [EvRead (current @ [''cpuset.cpus'']), EvRead (current @ [''cpuset.mems'']),
       EvRead (parent @ [''cpuset.cpus'']), EvRead (parent @ [''cpuset.mems''])])"
proof -
  from assms(3) obtain cc cm where
    cur: "nodes w (current @ [''cpuset.cpus'']) = Some (File cc)" "\<not> isEmpty cc"
         "nodes w (current @ [''cpuset.mems'']) = Some (File cm)" "\<not> isEmpty cm"
    by (rule masks_setE)
  from assms(4) obtain pc pm where
    par: "nodes w (parent @ [''cpuset.cpus'']) = Some (File pc)"
         "nodes w (parent @ [''cpuset.mems'']) = Some (File pm)"
    by (rule masks_setE)
  note g1 = gss_masks [OF assms(1) cur(1) cur(3)]
  note g2 = gss_masks [OF assms(2) par(1) par(2)]
  show ?thesis
    unfolding copyIfNeeded_ok [OF g1 g2] using cur(2,4)
    by (simp add: copy_mask_def io_return_def)
qed

lemma ensureParent_existing:
  assumes "dir_chain w (p @ [x])" and "masks_set w (p @ [x])" and "masks_set w p"
  shows "ensureParent (p @ [x]) w =
     (Inr (), w,
      [EvStat p, EvMkdirAll (p @ [x]),
       EvRead (p @ [x] @ [''cpuset.cpus'']), EvRead (p @ [x] @ [''cpuset.mems'']),
       EvRead (p @ [''cpuset.cpus'']), EvRead (p @ [''cpuset.mems''])])"
proof -
  from assms(1) have dp: "dir_chain w p" and lk: "lookup w (p @ [x]) = Some Dir"
    by (simp_all add: dir_chain_snoc)
  note st = os_Stat_dir_chain [OF dp]
  have mk: "os_MkdirAll (p @ [x]) w = (Inr (), w, [EvMkdirAll (p @ [x])])"
    using os_MkdirAll_child [OF dp, of x] lk by simp
  note cp = copyIfNeeded_noop [OF assms(1) dp assms(2) assms(3)]
  show ?thesis
    unfolding ensureParent_snoc_ok [OF st]
    by (simp add: ensureParent_mkdir_def mk cp)
qed

lemma chain_blocked:
  assumes "dir_chain w root" and "list_all (\<lambda>q. nodes w q = None) (chain root ds)"
  shows "\<not> blocked w (root @ ds)"
proof
  assume "blocked w (root @ ds)"
  then obtain q where q: "q \<in> set (butlast (prefixes (root @ ds)))" and f: "is_file (lookup w q)"
    by (auto simp: blocked_def list_ex_iff)
  from q have "q \<in> set (prefixes root @ chain root ds)"
    unfolding prefixes_chain [symmetric] by (rule in_set_butlastD)
  then consider "q \<in> set (prefixes root)" | "q \<in> set (chain root ds)"
    by auto
  then show False
  proof cases
    case 1
    with assms(1) f show False
      by (auto simp: dir_chain_def list_all_iff is_file_def)
  next
    case 2
    with assms(2) have "nodes w q = None" by (simp add: list_all_iff)
    with f show False
      by (auto simp: lookup_def is_file_def split: if_splits)
  qed
qed

text \<open>
  The walk over a chain of missing directories below a configured root. The directories
  it makes are made root side first; when it succeeds it has made all of them, every one
  is a directory with both masks set, and whatever else it changed below is a file.
\<close>

lemma ensureParent_chain:
  assumes root: "dir_chain w root" "masks_set w root"
    and "ds \<noteq> []"
    and "list_all (\<lambda>q. nodes w q = None) (chain root ds)"
    and "ensureParent (root @ ds) w = (r, w', l)"
  shows "prefix (made l) (chain root ds) \<and>
         (r = Inr () \<longrightarrow>
            made l = chain root ds \<and> dir_chain w' (root @ ds) \<and>
            list_all (masks_set w') (root # chain root ds) \<and>
            (\<forall>q. strict_prefix (root @ ds) q \<longrightarrow> nodes w' q \<noteq> nodes w q \<longrightarrow>
                 is_file (nodes w' q)))"
  using assms(3-5)
proof (induction ds arbitrary: r w' l rule: rev_nonempty_induct)
  case (single x)
  let ?cur = "root @ [x]"
  from single.prems(1) have none: "lookup w ?cur = None"
    by (simp add: chain_def lookup_def)
  note st = os_Stat_dir_chain [OF root(1)]
  obtain r3 w3 l3 where m: "ensureParent_mkdir ?cur root w = (r3, w3, l3)"
    by (cases "ensureParent_mkdir ?cur root w")
  from single.prems(2) m have eq: "r = r3" "w' = w3" "l = [EvStat root] @ l3"
    unfolding ensureParent_snoc_ok [OF st] by simp_all
  note step = ensureParent_mkdir_step [OF root(1) m]
  have made: "made l = [?cur]"
    using step(1) none eq by (simp add: made_append)
  have ch: "chain root [x] = [?cur]"
    by (simp add: chain_def)
  have "dir_chain w' ?cur \<and> list_all (masks_set w') (root # chain root [x]) \<and>
        (\<forall>q. strict_prefix ?cur q \<longrightarrow> nodes w' q \<noteq> nodes w q \<longrightarrow> is_file (nodes w' q))"
    if ok: "r = Inr ()"
  proof (intro conjI allI impI)
    from step(4) ok eq show "dir_chain w' ?cur" by simp
    from step(5) [OF _ root(2)] ok eq show "list_all (masks_set w') (root # chain root [x])"
      by (simp add: ch)
  next
    fix q assume "strict_prefix ?cur q" and "nodes w' q \<noteq> nodes w q"
    with step(3) eq show "is_file (nodes w' q)" by auto
  qed
  with made ch show ?case by simp
next
  case (snoc x ds)
  let ?par = "root @ ds"
  let ?cur = "root @ ds @ [x]"
  from snoc.prems(1) have miss: "list_all (\<lambda>q. nodes w q = None) (chain root ds)"
    and cur_none: "nodes w ?cur = None"
    by (simp_all add: chain_snoc)
  from snoc.hyps(1) have "ds = butlast ds @ [last ds]" by simp
  then have "?par \<in> set (chain root ds)"
    by (metis chain_snoc in_set_conv_decomp append_assoc)
  with miss have par_none: "lookup w ?par = None"
    using snoc.hyps(1) by (simp add: list_all_iff lookup_def)
  note st = os_Stat_missing [OF par_none chain_blocked [OF root(1) miss]]
  have em: "ensureParent (root @ ds @ [x]) w =
     (case ensureParent ?par w of
        (Inl e, w2, l2) \<Rightarrow> (Inl e, w2, [EvStat ?par] @ l2)
      | (Inr _, w2, l2) \<Rightarrow>
          (case ensureParent_mkdir (?par @ [x]) ?par w2 of
             (r, w3, l3) \<Rightarrow> (r, w3, [EvStat ?par] @ l2 @ l3)))"
    using ensureParent_snoc_missing [OF st, of x] by simp
  obtain r2 w2 l2 where rec: "ensureParent ?par w = (r2, w2, l2)"
    by (cases "ensureParent ?par w")
  note IH = snoc.IH [OF miss rec]
  show ?case
  proof (cases r2)
    case (Inl e)
    with snoc.prems(2) rec have "r = Inl e" "l = [EvStat ?par] @ l2"
      unfolding em by simp_all
    with IH show ?thesis
      by (simp add: made_append chain_snoc prefix_prefix)
  next
    case (Inr u)
    then have ok2: "r2 = Inr ()" by simp
    from IH ok2 have made2: "made l2 = chain root ds" and dc2: "dir_chain w2 ?par"
      and ms2: "list_all (masks_set w2) (root # chain root ds)"
      and fr2: "\<forall>q. strict_prefix ?par q \<longrightarrow> nodes w2 q \<noteq> nodes w q \<longrightarrow> is_file (nodes w2 q)"
      by simp_all
    from ms2 \<open>?par \<in> set (chain root ds)\<close> have mp2: "masks_set w2 ?par"
      by (simp add: list_all_iff)
    obtain r3 w3 l3 where m: "ensureParent_mkdir (?par @ [x]) ?par w2 = (r3, w3, l3)"
      by (cases "ensureParent_mkdir (?par @ [x]) ?par w2")
    from snoc.prems(2) rec ok2 m have eq: "r = r3" "w' = w3" "l = [EvStat ?par] @ l2 @ l3"
      unfolding em by simp_all
    note step = ensureParent_mkdir_step [OF dc2 m]
    have cur2: "nodes w2 ?cur = None \<or> is_file (nodes w2 ?cur)"
      using fr2 cur_none by (metis append_assoc strict_prefixI' append_Nil2 append_Cons)
    have made3: "made l3 = (if nodes w2 ?cur = None then [?cur] else [])"
      using step(1) by (simp add: lookup_def)
    have pre: "prefix (made l) (chain root (ds @ [x]))"
      using made2 made3 eq by (simp add: made_append chain_snoc)
    have "made l = chain root (ds @ [x]) \<and> dir_chain w' (root @ ds @ [x]) \<and>
          list_all (masks_set w') (root # chain root (ds @ [x])) \<and>
          (\<forall>q. strict_prefix (root @ ds @ [x]) q \<longrightarrow> nodes w' q \<noteq> nodes w q \<longrightarrow>
               is_file (nodes w' q))"
      if ok: "r = Inr ()"
    proof (intro conjI allI impI)
      from step(4) ok eq have nf: "\<not> is_file (lookup w2 (?par @ [x]))" by simp
      with cur2 have "nodes w2 ?cur = None" by (simp add: lookup_def)
      with made2 made3 eq show "made l = chain root (ds @ [x])"
        by (simp add: made_append chain_snoc)
      from step(4) ok eq show "dir_chain w' (root @ ds @ [x])" by simp
      from step(5) [OF _ mp2] ok eq have mc: "masks_set w' ?cur" and mp: "masks_set w' ?par"
        by simp_all
      have keep: "masks_set w' q" if q: "q \<in> set (root # chain root ds)" for q
      proof (cases "q = ?par")
        case True
        with mp show ?thesis by simp
      next
        case False
        from q have "prefix q ?par"
          by (auto dest: in_chain_prefix)
        then obtain zs where zs: "?par = q @ zs"
          by (auto simp: prefix_def)
        with False have "zs \<noteq> []" by auto
        with arg_cong [OF zs, of length] have len: "length q < length ?par"
          by simp
        from q ms2 have "masks_set w2 q" by (auto simp: list_all_iff)
        moreover have "nodes w3 (q @ [f]) = nodes w2 (q @ [f])" for f
        proof (rule ccontr)
          assume "nodes w3 (q @ [f]) \<noteq> nodes w2 (q @ [f])"
          with step(3) have "q @ [f] = ?par @ [x] \<or> butlast (q @ [f]) = ?par @ [x]"
            by blast
          with len show False by auto
        qed
        ultimately show ?thesis
          unfolding eq by (auto intro: masks_set_frame)
      qed
      with mc show "list_all (masks_set w') (root # chain root (ds @ [x]))"
        by (simp add: list_all_iff chain_snoc)
    next
      fix q assume sp: "strict_prefix (root @ ds @ [x]) q" and neq: "nodes w' q \<noteq> nodes w q"
      show "is_file (nodes w' q)"
      proof (cases "nodes w3 q = nodes w2 q")
        case False
        with step(3) sp show ?thesis
          unfolding eq by auto
      next
        case True
        from sp have "strict_prefix ?par q"
          by (auto simp: strict_prefix_def prefix_def)
        with fr2 True neq show ?thesis
          unfolding eq by simp
      qed
    qed
    with pre show ?thesis by simp
  qed
qed

text \<open>
  With a kernel that puts both mask files into a new directory and refuses no write, the
  walk succeeds, as long as no directory of the chain is named like a file the kernel
  puts there.
\<close>

lemma copy_mask_ok:
  assumes "dir_chain w current" and "is_file (nodes w (current @ [f]))"
    and "\<forall>q v. \<not> rejects w q v"
  shows "copy_mask current f c par w =
     (Inr (), (if isEmpty c then upd w (current @ [f]) par else w),
      (if isEmpty c then [EvWrite (current @ [f]) par] else []))"
proof -
  from assms(2) have "lookup w (current @ [f]) \<noteq> Some Dir"
    by (auto simp: lookup_def is_file_def)
  moreover note dir_chain_lookup [OF assms(1)]
    dir_chain_child_not_blocked [OF assms(1), of f] assms(3)
  ultimately show ?thesis
    by (simp add: copy_mask_def writeFile_def ioutil_WriteFile_def filepath_Join_def
        io_return_def upd_def)
qed

lemma upd_fields [simp]:
  "fresh (upd w p v) = fresh w" "rejects (upd w p v) = rejects w"
  "nodes (upd w p v) q = (if q = p then Some (File v) else nodes w q)"
  by (simp_all add: upd_def)

lemma dir_chain_upd:
  assumes "dir_chain w current"
  shows "dir_chain (upd w (current @ [f]) v) current"
proof (rule dir_chain_frame [OF assms], intro allI impI)
  fix q assume "prefix q current"
  then have "length q \<le> length current" by (rule prefix_length_le)
  then have "q \<noteq> current @ [f]" by auto
  then show "nodes (upd w (current @ [f]) v) q = nodes w q" by simp
qed

lemma ensureParent_mkdir_succeeds:
  assumes chain: "dir_chain w p" and masks: "masks_set w p"
    and missing: "nodes w (p @ [x]) = None"
    and kernel: "\<forall>q v. \<not> rejects w q v" "map_of (fresh w) ''cpuset.cpus'' \<noteq> None"
      "map_of (fresh w) ''cpuset.mems'' \<noteq> None"
    and run: "ensureParent_mkdir (p @ [x]) p w = (r, w', l)"
  shows "r = Inr ()"
    and "\<forall>q. nodes w' q \<noteq> nodes w q \<longrightarrow>
           q = p @ [x] \<or> (q \<noteq> [] \<and> butlast q = p @ [x] \<and> map_of (fresh w) (last q) \<noteq> None)"
proof -
  let ?cur = "p @ [x]"
  let ?w1 = "create_dir ?cur w"
  from kernel(2,3) obtain c0 m0 where
    f: "map_of (fresh w) ''cpuset.cpus'' = Some c0" "map_of (fresh w) ''cpuset.mems'' = Some m0"
    by blast
  from missing have none: "lookup w ?cur = None"
    by (simp add: lookup_def)
  with os_MkdirAll_child [OF chain, of x]
  have mk: "os_MkdirAll ?cur w = (Inr (), ?w1, [EvMkdirAll ?cur, EvMkdir ?cur])"
    by simp
  have dc1: "dir_chain ?w1 ?cur"
    using chain by (rule dir_chain_create_dir)
  then have dp1: "dir_chain ?w1 p"
    by (simp add: dir_chain_snoc)
  have k1: "\<forall>q v. \<not> rejects ?w1 q v"
    using kernel(1) by simp
  have cc: "nodes ?w1 (?cur @ [''cpuset.cpus'']) = Some (File c0)"
    and cm: "nodes ?w1 (?cur @ [''cpuset.mems'']) = Some (File m0)"
    using f by (simp_all add: create_dir_def butlast_append)
  have nf: "\<not> is_file (lookup w ?cur)"
    using none by (simp add: is_file_def)
  have x1: "x \<noteq> ''cpuset.cpus''" and x2: "x \<noteq> ''cpuset.mems''"
    using masks_set_is_file [OF masks, of x] nf by (auto simp: lookup_def)
  have mp1: "masks_set ?w1 p"
  proof (rule masks_set_frame [OF masks])
    from x1 have "\<not> prefix ?cur (p @ [''cpuset.cpus''])" by simp
    then show "nodes ?w1 (p @ [''cpuset.cpus'']) = nodes w (p @ [''cpuset.cpus''])"
      by (rule create_dir_other)
    from x2 have "\<not> prefix ?cur (p @ [''cpuset.mems''])" by simp
    then show "nodes ?w1 (p @ [''cpuset.mems'']) = nodes w (p @ [''cpuset.mems''])"
      by (rule create_dir_other)
  qed
  then obtain pc pm where
    par: "nodes ?w1 (p @ [''cpuset.cpus'']) = Some (File pc)"
         "nodes ?w1 (p @ [''cpuset.mems'']) = Some (File pm)"
    by (rule masks_setE)
  note g1 = gss_masks [OF dc1 cc cm]
  note g2 = gss_masks [OF dp1 par]
  let ?w2 = "if isEmpty c0 then upd ?w1 (?cur @ [''cpuset.cpus'']) pc else ?w1"
  let ?w3 = "if isEmpty m0 then upd ?w2 (?cur @ [''cpuset.mems'']) pm else ?w2"
  have s1: "copy_mask ?cur ''cpuset.cpus'' c0 pc ?w1 =
              (Inr (), ?w2, (if isEmpty c0 then [EvWrite (?cur @ [''cpuset.cpus'']) pc] else []))"
    using cc by (intro copy_mask_ok [OF dc1 _ k1]) (simp add: is_file_def)
  have dc2: "dir_chain ?w2 ?cur"
  proof (cases "isEmpty c0")
    case True
    then show ?thesis
      using dir_chain_upd [OF dc1, of "''cpuset.cpus''" pc] by simp
  next
    case False
    then show ?thesis
      using dc1 by simp
  qed
  have k2: "\<forall>q v. \<not> rejects ?w2 q v"
    using k1 by simp
  have cm2: "is_file (nodes ?w2 (?cur @ [''cpuset.mems'']))"
    using cm by (simp add: is_file_def)
  have s2: "copy_mask ?cur ''cpuset.mems'' m0 pm ?w2 =
              (Inr (), ?w3, (if isEmpty m0 then [EvWrite (?cur @ [''cpuset.mems'']) pm] else []))"
    by (rule copy_mask_ok [OF dc2 cm2 k2])
  have "\<exists>l2. copyIfNeeded ?cur p ?w1 = (Inr (), ?w3, l2)"
    unfolding copyIfNeeded_ok [OF g1 g2] s1 by (simp add: s2)
  with run mk have res: "r = Inr ()" "w' = ?w3"
    by (auto simp: ensureParent_mkdir_def)
  show "r = Inr ()" by (rule res)
  show "\<forall>q. nodes w' q \<noteq> nodes w q \<longrightarrow>
           q = p @ [x] \<or> (q \<noteq> [] \<and> butlast q = p @ [x] \<and> map_of (fresh w) (last q) \<noteq> None)"
  proof (intro allI impI)
    fix q assume ch: "nodes w' q \<noteq> nodes w q"
    show "q = ?cur \<or> (q \<noteq> [] \<and> butlast q = ?cur \<and> map_of (fresh w) (last q) \<noteq> None)"
    proof (cases "q = ?cur @ [''cpuset.cpus''] \<or> q = ?cur @ [''cpuset.mems'']")
      case True
      with f show ?thesis by (auto simp: butlast_append)
    next
      case False
      with ch res have "nodes ?w1 q \<noteq> nodes w q" by (simp split: if_splits)
      then show ?thesis
        by (auto simp: create_dir_def split: if_splits option.splits)
    qed
  qed
qed

lemma ensureParent_chain_succeeds:
  assumes root: "dir_chain w root" "masks_set w root"
    and kernel: "\<forall>q v. \<not> rejects w q v" "map_of (fresh w) ''cpuset.cpus'' \<noteq> None"
      "map_of (fresh w) ''cpuset.mems'' \<noteq> None"
    and "ds \<noteq> []"
    and "list_all (\<lambda>q. nodes w q = None) (chain root ds)"
    and "\<forall>x \<in> set ds. map_of (fresh w) x = None"
    and "ensureParent (root @ ds) w = (r, w', l)"
  shows "r = Inr () \<and> fresh w' = fresh w \<and> rejects w' = rejects w \<and>
         (\<forall>q. strict_prefix (root @ ds) q \<longrightarrow> nodes w' q \<noteq> nodes w q \<longrightarrow>
              butlast q = root @ ds \<and> map_of (fresh w) (last q) \<noteq> None)"
  using assms(6-9)
proof (induction ds arbitrary: r w' l rule: rev_nonempty_induct)
  case (single x)
  let ?cur = "root @ [x]"
  from single.prems(1) have none: "nodes w ?cur = None"
    by (simp add: chain_def)
  note st = os_Stat_dir_chain [OF root(1)]
  obtain r3 w3 l3 where m: "ensureParent_mkdir ?cur root w = (r3, w3, l3)"
    by (cases "ensureParent_mkdir ?cur root w")
  from single.prems(3) m have eq: "r = r3" "w' = w3"
    unfolding ensureParent_snoc_ok [OF st] by simp_all
  note ok = ensureParent_mkdir_succeeds [OF root none kernel m]
  note fields = ensureParent_mkdir_step(2) [OF root(1) m]
  have "butlast q = ?cur \<and> map_of (fresh w) (last q) \<noteq> None"
    if "strict_prefix ?cur q" and "nodes w' q \<noteq> nodes w q" for q
    using ok(2) that eq by auto
  with ok(1) fields eq show ?case by simp
next
  case (snoc x ds)
  let ?par = "root @ ds"
  let ?cur = "root @ ds @ [x]"
  from snoc.prems(1) have miss: "list_all (\<lambda>q. nodes w q = None) (chain root ds)"
    and cur_none: "nodes w ?cur = None"
    by (simp_all add: chain_snoc)
  from snoc.prems(2) have names: "\<forall>y \<in> set ds. map_of (fresh w) y = None"
    and xname: "map_of (fresh w) x = None"
    by simp_all
  from snoc.hyps(1) have "ds = butlast ds @ [last ds]" by simp
  then have "?par \<in> set (chain root ds)"
    by (metis chain_snoc in_set_conv_decomp append_assoc)
  with miss have par_none: "lookup w ?par = None"
    using snoc.hyps(1) by (simp add: list_all_iff lookup_def)
  note st = os_Stat_missing [OF par_none chain_blocked [OF root(1) miss]]
  have em: "ensureParent (root @ ds @ [x]) w =
     (case ensureParent ?par w of
        (Inl e, w2, l2) \<Rightarrow> (Inl e, w2, [EvStat ?par] @ l2)
      | (Inr _, w2, l2) \<Rightarrow>
          (case ensureParent_mkdir (?par @ [x]) ?par w2 of
             (r, w3, l3) \<Rightarrow> (r, w3, [EvStat ?par] @ l2 @ l3)))"
    using ensureParent_snoc_missing [OF st, of x] by simp
  obtain r2 w2 l2 where rec: "ensureParent ?par w = (r2, w2, l2)"
    by (cases "ensureParent ?par w")
  from snoc.IH [OF miss names rec] have ok2: "r2 = Inr ()"
    and f2: "fresh w2 = fresh w" "rejects w2 = rejects w"
    and fr2: "\<forall>q. strict_prefix ?par q \<longrightarrow> nodes w2 q \<noteq> nodes w q \<longrightarrow>
                butlast q = ?par \<and> map_of (fresh w) (last q) \<noteq> None"
    by simp_all
  from ensureParent_chain [OF root snoc.hyps(1) miss rec] ok2
  have dc2: "dir_chain w2 ?par" and ms2: "list_all (masks_set w2) (root # chain root ds)"
    by simp_all
  from ms2 \<open>?par \<in> set (chain root ds)\<close> have mp2: "masks_set w2 ?par"
    by (simp add: list_all_iff)
  have cur2: "nodes w2 (?par @ [x]) = None"
  proof (rule ccontr)
    assume "nodes w2 (?par @ [x]) \<noteq> None"
    with cur_none have "nodes w2 (?par @ [x]) \<noteq> nodes w (?par @ [x])" by simp
    moreover have "strict_prefix ?par (?par @ [x])"
      by (auto simp: strict_prefix_def prefix_def)
    ultimately have "map_of (fresh w) (last (?par @ [x])) \<noteq> None"
      using fr2 by blast
    with xname show False by simp
  qed
  obtain r3 w3 l3 where m: "ensureParent_mkdir (?par @ [x]) ?par w2 = (r3, w3, l3)"
    by (cases "ensureParent_mkdir (?par @ [x]) ?par w2")
  from snoc.prems(3) rec ok2 m have eq: "r = r3" "w' = w3"
    unfolding em by simp_all
  have k2: "\<forall>q v. \<not> rejects w2 q v" "map_of (fresh w2) ''cpuset.cpus'' \<noteq> None"
      "map_of (fresh w2) ''cpuset.mems'' \<noteq> None"
    using kernel f2 by simp_all
  note ok = ensureParent_mkdir_succeeds [OF dc2 mp2 cur2 k2 m]
  note fields = ensureParent_mkdir_step(2) [OF dc2 m]
  have "butlast q = ?cur \<and> map_of (fresh w) (last q) \<noteq> None"
    if sp: "strict_prefix ?cur q" and neq: "nodes w' q \<noteq> nodes w q" for q
  proof (cases "nodes w3 q = nodes w2 q")
    case False
    with ok(2) sp f2 show ?thesis by auto
  next
    case True
    from sp have "strict_prefix ?par q"
      by (auto simp: strict_prefix_def prefix_def)
    with fr2 True neq eq have "butlast q = ?par" by simp
    with sp show ?thesis
      by (auto simp: strict_prefix_def prefix_def butlast_append split: if_splits)
  qed
  with ok(1) fields eq f2 show ?case by simp
qed

lemma in_chain_parent:
  assumes "q \<in> set (chain root ds)"
  shows "\<exists>p x. q = p @ [x] \<and> p \<in> set (root # chain root ds)"
  using assms
proof (induction ds rule: rev_induct)
  case Nil
  then show ?case by (simp add: chain_Nil)
next
  case (snoc x ds)
  show ?case
  proof (cases "q \<in> set (chain root ds)")
    case True
    with snoc.IH show ?thesis by (auto simp: chain_snoc)
  next
    case False
    with snoc.prems have q: "q = (root @ ds) @ [x]" by (simp add: chain_snoc)
    have "root @ ds \<in> set (root # chain root ds)"
    proof (cases ds rule: rev_cases)
      case Nil
      then show ?thesis by simp
    next
      case (snoc ds' y)
      then show ?thesis by (simp add: chain_snoc)
    qed
    with q show ?thesis by (auto simp: chain_snoc)
  qed
qed

lemma dir_chain_prefix:
  assumes "dir_chain w p" and "prefix q p"
  shows "dir_chain w q"
proof -
  have "lookup w q' = Some Dir" if "prefix q' q" for q'
  proof -
    from that assms(2) have "prefix q' p" by (rule prefix_order.trans)
    with assms(1) show ?thesis by (simp add: dir_chain_def list_all_iff)
  qed
  then show ?thesis by (simp add: dir_chain_def list_all_iff)
qed

text \<open>
  C4. Take a hierarchy root that is a directory (with its ancestors) and has non-empty
  cpu and memory-node masks, and a target below it such that no directory of the chain
  from the root down to the target exists. Then the directories \<open>ensureParent\<close> makes are
  always made in root-to-leaf order (the list of directories made is a beginning of the
  chain). When \<open>ensureParent\<close> succeeds, it has made every directory of the chain, in
  that order; the root and every directory of the chain is a directory whose two mask
  files are not empty; and running \<open>ensureParent\<close> again on any directory of the chain,
  which now exists, succeeds, makes nothing and leaves the world as it is. And it does
  succeed when the kernel puts both mask files into every new directory and refuses no
  write, and no directory of the chain is named like a file the kernel puts there.
\<close>

theorem ensureParent_builds_chain:
  assumes "dir_chain w root" and "masks_set w root" and "ds \<noteq> []"
    and "list_all (\<lambda>q. nodes w q = None) (chain root ds)"
    and "ensureParent (root @ ds) w = (r, w', evs)"
  shows "prefix (made evs) (chain root ds) \<and>
         (r = Inr () \<longrightarrow>
            made evs = chain root ds \<and>
            list_all (\<lambda>q. lookup w' q = Some Dir \<and> masks_set w' q) (root # chain root ds) \<and>
            (\<forall>q \<in> set (chain root ds).
               \<exists>l. ensureParent q w' = (Inr (), w', l) \<and> made l = [])) \<and>
         ((\<forall>q v. \<not> rejects w q v) \<and> map_of (fresh w) ''cpuset.cpus'' \<noteq> None \<and>
          map_of (fresh w) ''cpuset.mems'' \<noteq> None \<and>
          (\<forall>x \<in> set ds. map_of (fresh w) x = None) \<longrightarrow> r = Inr ())"
proof -
  note main = ensureParent_chain [OF assms]
  have succeeds: "r = Inr ()"
    if "(\<forall>q v. \<not> rejects w q v) \<and> map_of (fresh w) ''cpuset.cpus'' \<noteq> None \<and>
        map_of (fresh w) ''cpuset.mems'' \<noteq> None \<and> (\<forall>x \<in> set ds. map_of (fresh w) x = None)"
  proof -
    from that have k: "\<forall>q v. \<not> rejects w q v" "map_of (fresh w) ''cpuset.cpus'' \<noteq> None"
      "map_of (fresh w) ''cpuset.mems'' \<noteq> None" and n: "\<forall>x \<in> set ds. map_of (fresh w) x = None"
      by blast+
    from ensureParent_chain_succeeds [OF assms(1,2) k assms(3,4) n assms(5)]
    show ?thesis by simp
  qed
  have "made evs = chain root ds \<and>
        list_all (\<lambda>q. lookup w' q = Some Dir \<and> masks_set w' q) (root # chain root ds) \<and>
        (\<forall>q \<in> set (chain root ds). \<exists>l. ensureParent q w' = (Inr (), w', l) \<and> made l = [])"
    if ok: "r = Inr ()"
  proof -
    from main ok have made: "made evs = chain root ds" and dc: "dir_chain w' (root @ ds)"
      and ms: "list_all (masks_set w') (root # chain root ds)"
      by simp_all
    have dirs: "dir_chain w' q" if "q \<in> set (root # chain root ds)" for q
    proof -
      from that have "prefix q (root @ ds)"
        by (auto dest: in_chain_prefix)
      with dc show ?thesis by (rule dir_chain_prefix)
    qed
    have all: "list_all (\<lambda>q. lookup w' q = Some Dir \<and> masks_set w' q) (root # chain root ds)"
      unfolding list_all_iff
    proof
      fix q assume q: "q \<in> set (root # chain root ds)"
      from dirs [OF q] have "lookup w' q = Some Dir" by (rule dir_chain_lookup)
      moreover from ms q have "masks_set w' q" by (auto simp: list_all_iff)
      ultimately show "lookup w' q = Some Dir \<and> masks_set w' q" ..
    qed
    have again: "\<exists>l. ensureParent q w' = (Inr (), w', l) \<and> made l = []"
      if q: "q \<in> set (chain root ds)" for q
    proof -
      from in_chain_parent [OF q] obtain p x where
        qp: "q = p @ [x]" and p: "p \<in> set (root # chain root ds)"
        by blast
      from q have dq: "dir_chain w' (p @ [x])"
        using dirs [of q] qp by simp
      from ms q qp have mq: "masks_set w' (p @ [x])"
        by (auto simp: list_all_iff)
      from ms p have mp: "masks_set w' p"
        by (auto simp: list_all_iff)
      from ensureParent_existing [OF dq mq mp] qp show ?thesis
        by simp
    qed
    from made all again show ?thesis by blast
  qed
  with main succeeds show ?thesis by blast
qed

lemma w_boot_chain_run:
  "ensureParent [''cg'', ''a'', ''b''] w_boot =
     (Inr (),
      upd (upd (create_dir [''cg'', ''a'', ''b'']
        (upd (upd (create_dir [''cg'', ''a''] w_boot)
           [''cg'', ''a'', ''cpuset.cpus''] ''0-3'') [''cg'', ''a'', ''cpuset.mems''] ''0''))
        [''cg'', ''a'', ''b'', ''cpuset.cpus''] ''0-3'') [''cg'', ''a'', ''b'', ''cpuset.mems''] ''0'',
      [EvStat [''cg'', ''a''],
       EvStat [''cg''], EvMkdirAll [''cg'', ''a''], EvMkdir [''cg'', ''a''],
       EvRead [''cg'', ''a'', ''cpuset.cpus''], EvRead [''cg'', ''a'', ''cpuset.mems''],
       EvRead [''cg'', ''cpuset.cpus''], EvRead [''cg'', ''cpuset.mems''],
       EvWrite [''cg'', ''a'', ''cpuset.cpus''] ''0-3'',
       EvWrite [''cg'', ''a'', ''cpuset.mems''] ''0'',
       EvMkdirAll [''cg'', ''a'', ''b''], EvMkdir [''cg'', ''a'', ''b''],
       EvRead [''cg'', ''a'', ''b'', ''cpuset.cpus''], EvRead [''cg'', ''a'', ''b'', ''cpuset.mems''],
       EvRead [''cg'', ''a'', ''cpuset.cpus''], EvRead [''cg'', ''a'', ''cpuset.mems''],
       EvWrite [''cg'', ''a'', ''b'', ''cpuset.cpus''] ''0-3'',
       EvWrite [''cg'', ''a'', ''b'', ''cpuset.mems''] ''0''])"
  by (simp add: ensureParent.simps ensureParent_mkdir_def os_Stat_def os_MkdirAll_def MkdirAll.simps os_Mkdir_def
      os_IsNotExist_def
      create_dir_def copyIfNeeded_def getSubsystemSettings_def io_bind_def io_return_def
      ioutil_ReadFile_def ioutil_WriteFile_def writeFile_def filepath_Join_def
      filepath_Dir_def blocked_def lookup_def is_file_def isEmpty_def bytes_Trim_def
      upd_def w_boot_def)

lemma w_boot_only_root:
  "dir_chain w_boot [''cg'']" "masks_set w_boot [''cg'']" "[''a'', ''b''] \<noteq> []"
  "list_all (\<lambda>q. nodes w_boot q = None) (chain [''cg''] [''a'', ''b''])"
  by (simp_all add: dir_chain_def masks_set_def chain_def lookup_def isEmpty_def bytes_Trim_def
      w_boot_def)

theorem ensureParent_builds_chain_witness:
  "dir_chain w_boot [''cg''] \<and> masks_set w_boot [''cg''] \<and>
   list_all (\<lambda>q. nodes w_boot q = None) (chain [''cg''] [''a'', ''b'']) \<and>
   fst (ensureParent [''cg'', ''a'', ''b''] w_boot) = Inr () \<and>
   made (snd (snd (ensureParent [''cg'', ''a'', ''b''] w_boot))) =
     [[''cg'', ''a''], [''cg'', ''a'', ''b'']] \<and>
   list_all (\<lambda>q. lookup (fst (snd (ensureParent [''cg'', ''a'', ''b''] w_boot))) q = Some Dir \<and>
                  masks_set (fst (snd (ensureParent [''cg'', ''a'', ''b''] w_boot))) q)
     [[''cg''], [''cg'', ''a''], [''cg'', ''a'', ''b'']]"
proof -
  have run: "ensureParent ([''cg''] @ [''a'', ''b'']) w_boot =
     (fst (ensureParent [''cg'', ''a'', ''b''] w_boot),
      fst (snd (ensureParent [''cg'', ''a'', ''b''] w_boot)),
      snd (snd (ensureParent [''cg'', ''a'', ''b''] w_boot)))"
    by simp
  have ok: "fst (ensureParent [''cg'', ''a'', ''b''] w_boot) = Inr ()"
    by (simp add: w_boot_chain_run)
  have ch: "chain [''cg''] [''a'', ''b''] = [[''cg'', ''a''], [''cg'', ''a'', ''b'']]"
    by (simp add: chain_def)
  from ensureParent_builds_chain [OF w_boot_only_root run] ok w_boot_only_root
  show ?thesis
    by (simp add: ch)
qed

end
